theory Spec2Isabelle
  imports Main
begin

section \<open>Scene persistence: \<^verbatim>\<open>mitkSceneIO.cpp\<close>\<close>

text \<open>
  The scene orchestrator \<^verbatim>\<open>mitk::SceneIO\<close> saves a set of data nodes to an archive and
  loads it again. The embedding follows the C++ source function by function. Calls into
  collaborators whose code lies outside the file (Poco, TinyXML, the serializers, the data
  storage, the scene reader, the identifier generator) are parameters: fields of the
  records \<open>platform\<close>, \<open>registry\<close> and \<open>loader\<close> below.
\<close>

subsection \<open>Calls that may raise\<close>

text \<open>
  A call that the source wraps in \<^verbatim>\<open>try { ... } catch (std::exception &)\<close> either
  returns a value or raises.
\<close>

datatype 'a outcome = Returns 'a | Raises

subsection \<open>Identifier generator\<close>

text \<open>
  \<^verbatim>\<open>mitk::UIDGenerator\<close> is declared outside the file. An identifier is the prefix
  followed by a generated part; the generated parts are the parameter \<open>parts\<close>, the
  \<open>k\<close>-th call of \<^verbatim>\<open>GetUID\<close> on one generator taking \<open>parts k\<close>.
\<close>

record UIDGenerator =
  m_Prefix :: string
  parts :: "nat \<Rightarrow> string"
  issued :: nat

definition UIDGenerator_New :: "string \<Rightarrow> (nat \<Rightarrow> string) \<Rightarrow> UIDGenerator" where
  "UIDGenerator_New prefix ps = \<lparr>m_Prefix = prefix, parts = ps, issued = 0\<rparr>"

definition GetUID :: "UIDGenerator \<Rightarrow> string \<times> UIDGenerator" where
  "GetUID g = (m_Prefix g @ parts g (issued g), g\<lparr>issued := Suc (issued g)\<rparr>)"

subsection \<open>Platform and file system\<close>

text \<open>
  The file system holds the directories that exist and the regular files the orchestrator
  writes (destination archives). An archive is represented by the manifest packed into it.
\<close>

datatype xml =
    Declaration string string string
  | Element string "(string \<times> string) list" "xml list"

datatype file_content = Archive "xml list" | Unfinished

record filesystem =
  dirs :: "string set"
  files :: "string \<rightharpoonup> file_content"

record platform =
  temp :: string  \<comment> \<open>\<^verbatim>\<open>Poco::Path::temp()\<close>\<close>
  separator :: char  \<comment> \<open>\<^verbatim>\<open>Poco::Path::separator()\<close>\<close>
  OptionDirectory :: string  \<comment> \<open>\<^verbatim>\<open>StandardFileLocations::GetOptionDirectory()\<close>\<close>
  source_file :: string  \<comment> \<open>the macro \<^verbatim>\<open>__FILE__\<close>\<close>
  dir_uid_parts :: "nat \<Rightarrow> string"  \<comment> \<open>generated parts of the generator \<^verbatim>\<open>UID_\<close>\<close>
  node_uid_parts :: "nat \<Rightarrow> string"  \<comment> \<open>generated parts of the generator \<^verbatim>\<open>OBJECT_\<close>\<close>
  mkdir_raises :: "string \<Rightarrow> bool"  \<comment> \<open>\<^verbatim>\<open>createDirectory\<close> raises on this path\<close>
  SaveFile_ok :: "string \<Rightarrow> bool"  \<comment> \<open>\<^verbatim>\<open>TiXmlDocument::SaveFile\<close> succeeds\<close>
  remove_raises :: "string \<Rightarrow> bool"  \<comment> \<open>\<^verbatim>\<open>Poco::File::remove\<close> raises on this path\<close>
  ofstream_good :: "string \<Rightarrow> bool"  \<comment> \<open>the file opens for writing\<close>
  ifstream_good :: "string \<Rightarrow> bool"  \<comment> \<open>the file opens for reading\<close>
  zip_raises :: "string \<Rightarrow> bool"  \<comment> \<open>\<^verbatim>\<open>Poco::Zip::Compress\<close> raises on this directory\<close>
  unzip_raises :: "string \<Rightarrow> bool"  \<comment> \<open>\<^verbatim>\<open>Poco::Zip::Decompress\<close> raises on this archive\<close>
  unzip_errors :: "string \<Rightarrow> nat"  \<comment> \<open>entries of the archive that fail to unpack\<close>
  MakeCindentifier :: "string \<Rightarrow> string"  \<comment> \<open>\<^verbatim>\<open>itksys::SystemTools\<close>\<close>
  SplitProgramPath :: "string \<Rightarrow> string \<times> string"  \<comment> \<open>directory and file name\<close>
  GetDirectorySeparator :: char  \<comment> \<open>\<^verbatim>\<open>mitk::IOUtil::GetDirectorySeparator()\<close>\<close>

text \<open>
  \<^verbatim>\<open>Poco::File(path)\<close> drops one trailing separator of a path longer than one
  character; \<^verbatim>\<open>Poco::Path::transcode\<close> leaves a path as it is.
\<close>

definition Poco_File :: "platform \<Rightarrow> string \<Rightarrow> string" where
  "Poco_File env path =
     (if 1 < length path \<and> last path = separator env then butlast path else path)"

text \<open>
  \<^verbatim>\<open>Poco::File::createDirectory\<close>: false when the directory exists already, true when
  it has been created, an exception when it cannot be created.
\<close>

definition createDirectory ::
  "platform \<Rightarrow> filesystem \<Rightarrow> string \<Rightarrow> (bool \<times> filesystem) outcome" where
  "createDirectory env fs path =
     (if path \<in> dirs fs then Returns (False, fs)
      else if mkdir_raises env path then Raises
      else Returns (True, fs\<lparr>dirs := insert path (dirs fs)\<rparr>))"

text \<open>\<^verbatim>\<open>Poco::File::remove(true)\<close> on a directory: recursive removal.\<close>

definition remove_dir :: "platform \<Rightarrow> filesystem \<Rightarrow> string \<Rightarrow> filesystem outcome" where
  "remove_dir env fs path =
     (if remove_raises env path then Raises
      else Returns (fs\<lparr>dirs := dirs fs - {path}\<rparr>))"

text \<open>
  \<^verbatim>\<open>if (deleteFile.exists()) deleteFile.remove()\<close> on the destination (lines 426-430):
  whatever is at the path, a regular file or a directory, is removed. The removal is not
  recursive; what a directory contains is not part of the file system here, so a directory
  that is not empty is one of the paths on which \<^verbatim>\<open>remove\<close> raises.
\<close>

definition remove_if_exists :: "platform \<Rightarrow> filesystem \<Rightarrow> string \<Rightarrow> filesystem outcome" where
  "remove_if_exists env fs path =
     (if path \<in> dom (files fs) \<or> path \<in> dirs fs then
        (if remove_raises env path then Raises
         else Returns (fs\<lparr>dirs := dirs fs - {path}, files := (files fs)(path := None)\<rparr>))
      else Returns fs)"

subsection \<open>Staging area: \<^verbatim>\<open>CreateEmptyTempDirectory\<close> (lines 49-82)\<close>

definition CreateEmptyTempDirectory :: "platform \<Rightarrow> filesystem \<Rightarrow> string \<times> filesystem" where
  "CreateEmptyTempDirectory env fs =
     (let uidGen = UIDGenerator_New ''UID_'' (dir_uid_parts env);
          (uid, uidGen) = GetUID uidGen;
          returnValue = temp env @ ''SceneIOTemp'' @ uid;
          uniquename = returnValue @ [separator env]
      in case createDirectory env fs (Poco_File env uniquename) of
           Raises \<Rightarrow> ([], fs)
         | Returns (existsNot, fs) \<Rightarrow>
             if \<not> existsNot then
               let (uid, uidGen) = GetUID uidGen;
                   returnValue = OptionDirectory env @ [separator env]
                     @ ''SceneIOTempDirectory'' @ uid;
                   uniquename = returnValue @ [separator env]
               in (case createDirectory env fs (Poco_File env uniquename) of
                     Raises \<Rightarrow> ([], fs)
                   | Returns (created, fs) \<Rightarrow> (returnValue, fs))
             else (returnValue, fs))"

subsection \<open>Scene nodes, payloads and property lists\<close>

text \<open>
  A \<^verbatim>\<open>DataNode *\<close> is an address or null (\<open>node option\<close>); the objects behind the
  addresses are the field \<open>node_at\<close> of the registry below.
  \<^verbatim>\<open>DataStorage::GetSources\<close> yields nodes of the storage, which holds no null pointer.
\<close>

type_synonym node = nat

record PropertyList =
  properties :: "(string \<times> string) list"

definition IsEmpty :: "PropertyList \<Rightarrow> bool" where
  "IsEmpty pl = (properties pl = [])"

record BaseData =
  NameOfClass :: string
  data_PropertyList :: "PropertyList option"

record DataNode =
  Name :: string
  Data :: "BaseData option"
  m_MapOfPropertyLists :: "(string \<times> PropertyList) list"
  m_PropertyList :: "PropertyList option"

record DataStorage =
  GetAll :: "node list"
  GetSources :: "node \<Rightarrow> node list"

text \<open>
  What \<^verbatim>\<open>itk::ObjectFactoryBase::CreateAllInstance\<close> returns for a class name: objects
  that are a \<^verbatim>\<open>BaseDataSerializer\<close> (given by what \<^verbatim>\<open>Serialize\<close> does for a
  payload, a file name hint and a working directory) or are not
  (\<^verbatim>\<open>dynamic_cast\<close> yields null).
\<close>

datatype candidate =
    NotASerializer
  | BaseDataSerializer "BaseData \<Rightarrow> string \<Rightarrow> string \<Rightarrow> string outcome"

record registry =
  CreateAllInstance :: "string \<Rightarrow> candidate list"
  PropertyListSerializer ::
    "PropertyList \<Rightarrow> string \<Rightarrow> string \<Rightarrow> (string \<times> PropertyList option) outcome"
  ConcatenatePropertyList :: "PropertyList \<Rightarrow> PropertyList \<Rightarrow> PropertyList"
  node_at :: "node \<Rightarrow> DataNode"

subsection \<open>TinyXML elements\<close>

fun SetAttribute :: "xml \<Rightarrow> string \<Rightarrow> string \<Rightarrow> xml" where
  "SetAttribute (Element v as cs) k x =
     Element v
       (if k \<in> fst ` set as then map (\<lambda>(k', x'). if k' = k then (k', x) else (k', x')) as
        else as @ [(k, x)]) cs"
| "SetAttribute (Declaration a b c) k x = Declaration a b c"

fun LinkEndChild :: "xml \<Rightarrow> xml \<Rightarrow> xml" where
  "LinkEndChild (Element v as cs) c = Element v as (cs @ [c])"
| "LinkEndChild (Declaration a b c) d = Declaration a b c"

fun Attribute :: "xml \<Rightarrow> string \<Rightarrow> string option" where
  "Attribute (Element v as cs) k = map_of as k"
| "Attribute (Declaration a b c) k = None"

fun Value :: "xml \<Rightarrow> string" where
  "Value (Element v as cs) = v"
| "Value (Declaration a b c) = []"

fun children :: "xml \<Rightarrow> xml list" where
  "children (Element v as cs) = cs"
| "children (Declaration a b c) = []"

definition children_named :: "string \<Rightarrow> xml \<Rightarrow> xml list" where
  "children_named v e = filter (\<lambda>c. Value c = v) (children e)"

subsection \<open>The orchestrator's members\<close>

record SceneIO =
  m_WorkingDirectory :: string
  m_FailedNodes :: "node list option"
  m_FailedProperties :: "PropertyList option"
  m_UnzipErrors :: nat

definition SceneIO_New :: SceneIO where
  "SceneIO_New = \<lparr>m_WorkingDirectory = [], m_FailedNodes = None,
     m_FailedProperties = None, m_UnzipErrors = 0\<rparr>"

subsection \<open>\<^verbatim>\<open>SaveBaseData\<close> (lines 472-521)\<close>

text \<open>
  The loop over the candidates: the first one that is a serializer is used, and the loop
  is left after it. The pair is the element and the flag \<^verbatim>\<open>error\<close>, which starts true.
\<close>

fun serializer_loop ::
  "string \<Rightarrow> BaseData \<Rightarrow> string \<Rightarrow> candidate list \<Rightarrow> xml \<Rightarrow> xml \<times> bool" where
  "serializer_loop wd data hint [] element = (element, True)"
| "serializer_loop wd data hint (NotASerializer # rest) element =
     serializer_loop wd data hint rest element"
| "serializer_loop wd data hint (BaseDataSerializer Serialize # rest) element =
     (case Serialize data hint wd of
        Returns writtenfilename \<Rightarrow> (SetAttribute element ''file'' writtenfilename, False)
      | Raises \<Rightarrow> (element, True))"

definition SaveBaseData :: "registry \<Rightarrow> SceneIO \<Rightarrow> BaseData \<Rightarrow> string \<Rightarrow> xml \<times> bool" where
  "SaveBaseData reg this data filenamehint =
     (let element = SetAttribute (Element ''data'' [] []) ''type'' (NameOfClass data);
          serializername = NameOfClass data @ ''Serializer'';
          thingsThatCanSerializeThis = CreateAllInstance reg serializername
      in serializer_loop (m_WorkingDirectory this) data filenamehint
           thingsThatCanSerializeThis element)"

subsection \<open>\<^verbatim>\<open>SavePropertyList\<close> (lines 523-554)\<close>

definition SavePropertyList ::
  "registry \<Rightarrow> SceneIO \<Rightarrow> PropertyList \<Rightarrow> string \<Rightarrow> xml \<times> SceneIO" where
  "SavePropertyList reg this propertyList filenamehint =
     (let element = Element ''properties'' [] []
      in case PropertyListSerializer reg propertyList filenamehint (m_WorkingDirectory this) of
           Returns (writtenfilename, failedProperties) \<Rightarrow>
             (SetAttribute element ''file'' writtenfilename,
              case failedProperties of
                None \<Rightarrow> this
              | Some failed \<Rightarrow>
                  this\<lparr>m_FailedProperties :=
                    map_option (\<lambda>acc. ConcatenatePropertyList reg acc failed)
                      (m_FailedProperties this)\<rparr>)
         | Raises \<Rightarrow> (element, this))"

subsection \<open>Dependencies: the first loop of \<^verbatim>\<open>SaveScene\<close> (lines 284-322)\<close>

type_synonym UIDMapType = "node \<rightharpoonup> string"
type_synonym SourcesMapType = "node \<rightharpoonup> string list"

text \<open>
  \<^verbatim>\<open>std::map::operator[]\<close>: the value at the key, a default value being stored there
  first when the key is absent.
\<close>

definition subscript :: "('k \<rightharpoonup> 'v) \<Rightarrow> 'k \<Rightarrow> 'v \<Rightarrow> 'v \<times> ('k \<rightharpoonup> 'v)" where
  "subscript m k dflt = (case m k of None \<Rightarrow> (dflt, m(k \<mapsto> dflt)) | Some v \<Rightarrow> (v, m))"

text \<open>\<^verbatim>\<open>if (nodeUIDs[k].empty()) nodeUIDs[k] = nodeUIDGen.GetUID();\<close>\<close>

definition assign_if_empty ::
  "UIDMapType \<times> UIDGenerator \<Rightarrow> node \<Rightarrow> UIDMapType \<times> UIDGenerator" where
  "assign_if_empty s k =
     (let (nodeUIDs, nodeUIDGen) = s;
          (u, nodeUIDs) = subscript nodeUIDs k []
      in if u = [] then
           let (uid, nodeUIDGen) = GetUID nodeUIDGen in (nodeUIDs(k \<mapsto> uid), nodeUIDGen)
         else (nodeUIDs, nodeUIDGen))"

type_synonym deps = "UIDMapType \<times> SourcesMapType \<times> UIDGenerator"

fun sources_loop :: "node option list \<Rightarrow> node \<Rightarrow> node list \<Rightarrow> deps \<Rightarrow> deps" where
  "sources_loop sceneNodes node [] s = s"
| "sources_loop sceneNodes node (source # rest) (nodeUIDs, sourceUIDs, nodeUIDGen) =
     (if Some source \<notin> set sceneNodes then
        sources_loop sceneNodes node rest (nodeUIDs, sourceUIDs, nodeUIDGen)
      else
        let (nodeUIDs, nodeUIDGen) = assign_if_empty (nodeUIDs, nodeUIDGen) source;
            (u, nodeUIDs) = subscript nodeUIDs source [];
            (l, sourceUIDs) = subscript sourceUIDs node []
        in sources_loop sceneNodes node rest
             (nodeUIDs, sourceUIDs(node \<mapsto> l @ [u]), nodeUIDGen))"

fun dependencies_loop ::
  "node option list \<Rightarrow> DataStorage \<Rightarrow> node option list \<Rightarrow> deps \<Rightarrow> deps" where
  "dependencies_loop sceneNodes storage [] s = s"
| "dependencies_loop sceneNodes storage (None # rest) s =
     dependencies_loop sceneNodes storage rest s"
| "dependencies_loop sceneNodes storage (Some node # rest) s =
     (let (nodeUIDs, sourceUIDs, nodeUIDGen) =
            sources_loop sceneNodes node (GetSources storage node) s;
          (nodeUIDs, nodeUIDGen) = assign_if_empty (nodeUIDs, nodeUIDGen) node
      in dependencies_loop sceneNodes storage rest (nodeUIDs, sourceUIDs, nodeUIDGen))"

definition find_dependencies :: "platform \<Rightarrow> DataStorage \<Rightarrow> node option list \<Rightarrow> deps" where
  "find_dependencies env storage sceneNodes =
     dependencies_loop sceneNodes storage sceneNodes
       (Map.empty, Map.empty, UIDGenerator_New ''OBJECT_'' (node_uid_parts env))"

subsection \<open>Writing the nodes: the second loop of \<^verbatim>\<open>SaveScene\<close> (lines 324-411)\<close>

definition store_dependencies ::
  "UIDMapType \<Rightarrow> SourcesMapType \<Rightarrow> node \<Rightarrow> xml \<Rightarrow> xml" where
  "store_dependencies nodeUIDs sourceUIDs node nodeElement =
     (let nodeElement =
            (case nodeUIDs node of
               Some uid \<Rightarrow> SetAttribute nodeElement ''UID'' uid
             | None \<Rightarrow> nodeElement)
      in case sourceUIDs node of
           Some l \<Rightarrow>
             foldl (\<lambda>e uid. LinkEndChild e (SetAttribute (Element ''source'' [] []) ''UID'' uid))
               nodeElement l
         | None \<Rightarrow> nodeElement)"

definition store_basedata ::
  "registry \<Rightarrow> node \<Rightarrow> string \<Rightarrow> xml \<times> SceneIO \<Rightarrow> xml \<times> SceneIO" where
  "store_basedata reg node filenameHint s =
     (let (nodeElement, this) = s
      in case Data (node_at reg node) of
           None \<Rightarrow> (nodeElement, this)
         | Some data \<Rightarrow>
             let (dataElement, error) = SaveBaseData reg this data filenameHint;
                 this = (if error then
                           this\<lparr>m_FailedNodes :=
                             map_option (\<lambda>l. l @ [node]) (m_FailedNodes this)\<rparr>
                         else this);
                 (dataElement, this) =
                   (case data_PropertyList data of
                      None \<Rightarrow> (dataElement, this)
                    | Some propertyList \<Rightarrow>
                        if \<not> IsEmpty propertyList then
                          let (baseDataPropertiesElement, this) =
                                SavePropertyList reg this propertyList (filenameHint @ ''-data'')
                          in (LinkEndChild dataElement baseDataPropertiesElement, this)
                        else (dataElement, this))
             in (LinkEndChild nodeElement dataElement, this))"

fun renderwindow_loop ::
  "registry \<Rightarrow> DataNode \<Rightarrow> string \<Rightarrow> string list \<Rightarrow> xml \<times> SceneIO \<Rightarrow> xml \<times> SceneIO" where
  "renderwindow_loop reg obj filenameHint [] s = s"
| "renderwindow_loop reg obj filenameHint (renderWindowName # rest) (nodeElement, this) =
     (case map_of (m_MapOfPropertyLists obj) renderWindowName of
        None \<Rightarrow> renderwindow_loop reg obj filenameHint rest (nodeElement, this)
      | Some propertyList \<Rightarrow>
          if \<not> IsEmpty propertyList then
            let (renderWindowPropertiesElement, this) =
                  SavePropertyList reg this propertyList
                    (filenameHint @ ''-'' @ renderWindowName);
                renderWindowPropertiesElement =
                  SetAttribute renderWindowPropertiesElement ''renderwindow'' renderWindowName
            in renderwindow_loop reg obj filenameHint rest
                 (LinkEndChild nodeElement renderWindowPropertiesElement, this)
          else renderwindow_loop reg obj filenameHint rest (nodeElement, this))"

definition store_node_properties ::
  "registry \<Rightarrow> DataNode \<Rightarrow> string \<Rightarrow> xml \<times> SceneIO \<Rightarrow> xml \<times> SceneIO" where
  "store_node_properties reg obj filenameHint s =
     (let (nodeElement, this) = s
      in case m_PropertyList obj of
           None \<Rightarrow> (nodeElement, this)
         | Some propertyList \<Rightarrow>
             if \<not> IsEmpty propertyList then
               let (propertiesElement, this) =
                     SavePropertyList reg this propertyList (filenameHint @ ''-node'')
               in (LinkEndChild nodeElement propertiesElement, this)
             else (nodeElement, this))"

text \<open>The body of the second loop for a node that is not null: its manifest record.\<close>

definition write_node ::
  "platform \<Rightarrow> registry \<Rightarrow> UIDMapType \<Rightarrow> SourcesMapType \<Rightarrow> node \<Rightarrow> SceneIO
     \<Rightarrow> xml \<times> SceneIO" where
  "write_node env reg nodeUIDs sourceUIDs node this =
     (let obj = node_at reg node;
          nodeElement = Element ''node'' [] [];
          filenameHint = MakeCindentifier env (Name obj);
          nodeElement = store_dependencies nodeUIDs sourceUIDs node nodeElement;
          s = store_basedata reg node filenameHint (nodeElement, this);
          s = renderwindow_loop reg obj filenameHint (map fst (m_MapOfPropertyLists obj)) s
      in store_node_properties reg obj filenameHint s)"

fun write_loop ::
  "platform \<Rightarrow> registry \<Rightarrow> UIDMapType \<Rightarrow> SourcesMapType \<Rightarrow> node option list
     \<Rightarrow> xml list \<times> SceneIO \<Rightarrow> xml list \<times> SceneIO" where
  "write_loop env reg nodeUIDs sourceUIDs [] s = s"
| "write_loop env reg nodeUIDs sourceUIDs (None # rest) s =
     write_loop env reg nodeUIDs sourceUIDs rest s"
| "write_loop env reg nodeUIDs sourceUIDs (Some node # rest) (document, this) =
     (let (nodeElement, this) = write_node env reg nodeUIDs sourceUIDs node this
      in write_loop env reg nodeUIDs sourceUIDs rest (document @ [nodeElement], this))"

subsection \<open>\<^verbatim>\<open>SaveScene\<close> (lines 217-470)\<close>

definition PropertyList_New :: PropertyList where
  "PropertyList_New = \<lparr>properties = []\<rparr>"

definition version_element :: "platform \<Rightarrow> xml" where
  "version_element env =
     (let version = Element ''Version'' [] [];
          version = SetAttribute version ''Writer'' (source_file env);
          version = SetAttribute version ''Revision'' ''$Revision: 17055 $''
      in SetAttribute version ''FileVersion'' ''1'')"

text \<open>
  Lines 414-463: the manifest is written into the working directory, the destination is
  replaced by the packed working directory, and the working directory is removed. The
  destination file exists, unfinished, from the moment it is opened.
\<close>

definition write_archive ::
  "platform \<Rightarrow> SceneIO \<Rightarrow> filesystem \<Rightarrow> xml list \<Rightarrow> string \<Rightarrow> bool \<times> filesystem" where
  "write_archive env this fs document filename =
     (let defaultLocale_WorkingDirectory = m_WorkingDirectory this
      in if \<not> SaveFile_ok env (defaultLocale_WorkingDirectory @ [separator env] @ ''index.xml'')
         then (False, fs)
         else
           case remove_if_exists env fs (Poco_File env filename) of
             Raises \<Rightarrow> (False, fs)
           | Returns fs \<Rightarrow>
               if \<not> ofstream_good env filename then (False, fs)
               else
                 let fs = fs\<lparr>files := (files fs)(filename \<mapsto> Unfinished)\<rparr>
                 in if zip_raises env (m_WorkingDirectory this) then (False, fs)
                    else
                      let fs = fs\<lparr>files := (files fs)(filename \<mapsto> Archive document)\<rparr>
                      in (case remove_dir env fs (Poco_File env (m_WorkingDirectory this)) of
                            Raises \<Rightarrow> (False, fs)
                          | Returns fs \<Rightarrow> (True, fs)))"

text \<open>What the document holds before the first node is written (lines 247-258).\<close>

definition manifest_header :: "platform \<Rightarrow> xml list" where
  "manifest_header env = [Declaration ''1.0'' ''UTF-8'' [], version_element env]"

text \<open>
  \<^verbatim>\<open>SaveScene\<close> takes the orchestrator's members and the file system and returns them
  with its result. The test \<^verbatim>\<open>sceneNodes.IsNull()\<close> of line 262 cannot hold after
  line 221, so its branch is left out; nothing in the body raises past the handlers
  written out below, so the handler of lines 465-469 has no branch either.
\<close>

definition SaveScene ::
  "platform \<Rightarrow> registry \<Rightarrow> SceneIO \<times> filesystem \<Rightarrow> node option list option
     \<Rightarrow> DataStorage option \<Rightarrow> string \<Rightarrow> bool \<times> SceneIO \<times> filesystem" where
  "SaveScene env reg s sceneNodes storage filename =
     (let (this, fs) = s
      in case sceneNodes of
           None \<Rightarrow> (False, this, fs)
         | Some nodes \<Rightarrow>
             (case storage of
                None \<Rightarrow> (False, this, fs)
              | Some graph \<Rightarrow>
                  if filename = [] then (False, this, fs)
                  else
                    let this = this\<lparr>m_FailedNodes := Some [],
                                 m_FailedProperties := Some PropertyList_New\<rparr>;
                        document = manifest_header env;
                        (workingDirectory, fs) = CreateEmptyTempDirectory env fs;
                        this = this\<lparr>m_WorkingDirectory := workingDirectory\<rparr>
                    in if m_WorkingDirectory this = [] then (False, this, fs)
                       else
                         let (nodeUIDs, sourceUIDs, nodeUIDGen) =
                               find_dependencies env graph nodes;
                             (document, this) =
                               write_loop env reg nodeUIDs sourceUIDs nodes (document, this);
                             (ok, fs) = write_archive env this fs document filename
                         in (ok, this, fs)))"

subsection \<open>Data storage and scene reader\<close>

text \<open>
  Modelled from the spec: the scene graph (\<^verbatim>\<open>mitk::DataStorage\<close>, outside the file)
  enumerates all its nodes, looks up the direct predecessors of a node and removes nodes
  in bulk; a new storage is empty. \<^verbatim>\<open>Add\<close> appends a node with its predecessors.
\<close>

definition StandaloneDataStorage_New :: DataStorage where
  "StandaloneDataStorage_New = \<lparr>GetAll = [], GetSources = (\<lambda>n. [])\<rparr>"

definition Remove :: "DataStorage \<Rightarrow> node list \<Rightarrow> DataStorage" where
  "Remove storage nodes =
     \<lparr>GetAll = filter (\<lambda>n. n \<notin> set nodes) (GetAll storage),
      GetSources = (\<lambda>n. if n \<in> set nodes then []
                         else filter (\<lambda>s. s \<notin> set nodes) (GetSources storage n))\<rparr>"

definition Add :: "DataStorage \<Rightarrow> node \<times> node list \<Rightarrow> DataStorage" where
  "Add storage np =
     \<lparr>GetAll = GetAll storage @ [fst np],
      GetSources = (GetSources storage)(fst np := snd np)\<rparr>"

text \<open>
  Modelled from the spec: the scene reader (\<^verbatim>\<open>mitk::SceneReader\<close>, outside the file)
  constructs one node per manifest record it can read and adds it, with its resolved
  dependencies, to the storage; it reports whether every record could be read. Its
  parameter \<open>SceneReader_LoadScene\<close> gives, for a document, a working directory and the
  storage it is handed, the nodes it adds and how it ends: with its report, or by raising
  (after the nodes it added until then).
  \<^verbatim>\<open>TiXmlDocument::LoadFile\<close> yields the parsed manifest, or fails.
  The bulk removal \<^verbatim>\<open>storage->Remove(storage->GetAll())\<close> may raise instead of
  completing: \<open>Remove_raises\<close> then gives the storage as the interrupted removal left it.
\<close>

record loader =
  LoadFile :: "string \<Rightarrow> xml list option"
  SceneReader_LoadScene ::
    "xml list \<Rightarrow> string \<Rightarrow> DataStorage \<Rightarrow> bool outcome \<times> (node \<times> node list) list"
  Remove_raises :: "DataStorage \<Rightarrow> node list \<Rightarrow> DataStorage option"

subsection \<open>\<^verbatim>\<open>LoadSceneUnzipped\<close> (lines 160-215) and \<^verbatim>\<open>LoadScene\<close> (lines 84-158)\<close>

text \<open>
  Storages live in a heap, a \<^verbatim>\<open>DataStorage::Pointer\<close> being an index into it or null.
  \<^verbatim>\<open>StandaloneDataStorage::New()\<close> allocates at the end of the heap.
\<close>

type_synonym heap = "DataStorage list"

definition prepare_storage :: "heap \<Rightarrow> nat option \<Rightarrow> nat option \<times> heap" where
  "prepare_storage h pStorage =
     (let storage = pStorage
      in if storage = None then (Some (length h), h @ [StandaloneDataStorage_New])
         else (storage, h))"

text \<open>
  Lines 173-183, on the storage itself: with \<^verbatim>\<open>clearStorageFirst\<close> all its nodes are
  removed; when the removal raises, the handler logs and the storage stays as the removal
  left it.
\<close>

definition clear_storage :: "loader \<Rightarrow> bool \<Rightarrow> DataStorage \<Rightarrow> DataStorage" where
  "clear_storage ld clearStorageFirst storage =
     (if clearStorageFirst then
        (case Remove_raises ld storage (GetAll storage) of
           None \<Rightarrow> Remove storage (GetAll storage)
         | Some left \<Rightarrow> left)
      else storage)"

text \<open>
  The reader is called outside any handler (line 208): when it raises, so does
  \<^verbatim>\<open>LoadSceneUnzipped\<close>, which is the result \<open>Raises\<close> beside the heap as it is then.
\<close>

definition LoadSceneUnzipped ::
  "platform \<Rightarrow> loader \<Rightarrow> heap \<Rightarrow> string \<Rightarrow> nat option \<Rightarrow> bool
     \<Rightarrow> nat option outcome \<times> heap" where
  "LoadSceneUnzipped env ld h indexfilename pStorage clearStorageFirst =
     (let (storage, h) = prepare_storage h pStorage;
          h = h[the storage := clear_storage ld clearStorageFirst (h ! the storage)]
      in if indexfilename = [] then (Returns storage, h)
         else
           let (workingDir, tempfilename) = SplitProgramPath env indexfilename
           in case LoadFile ld indexfilename of
                None \<Rightarrow> (Returns storage, h)
              | Some document \<Rightarrow>
                  let (report, added) =
                        SceneReader_LoadScene ld document workingDir (h ! the storage);
                      h = h[the storage := foldl Add (h ! the storage) added]
                  in (case report of
                        Raises \<Rightarrow> (Raises, h)
                      | Returns ok \<Rightarrow> (Returns storage, h)))"

text \<open>
  The archive is unpacked into the working directory, which the file system does not look
  into: what \<^verbatim>\<open>LoadFile\<close> finds there is the loader's parameter. Unpacking
  (lines 122-131) and \<^verbatim>\<open>LoadSceneUnzipped\<close> (line 143) are called outside any handler:
  when one of them raises, so does \<^verbatim>\<open>LoadScene\<close>, before it reaches the removal of
  the working directory. \<^verbatim>\<open>m_UnzipErrors\<close> counts the entries reported until the
  unpacking ends or raises.
\<close>

definition LoadScene ::
  "platform \<Rightarrow> loader \<Rightarrow> SceneIO \<times> filesystem \<times> heap \<Rightarrow> string \<Rightarrow> nat option \<Rightarrow> bool
     \<Rightarrow> nat option outcome \<times> SceneIO \<times> filesystem \<times> heap" where
  "LoadScene env ld s filename pStorage clearStorageFirst =
     (let (this, fs, h) = s;
          (storage, h) = prepare_storage h pStorage
      in if filename = [] then (Returns storage, this, fs, h)
         else if \<not> ifstream_good env filename then (Returns storage, this, fs, h)
         else
           let (workingDirectory, fs) = CreateEmptyTempDirectory env fs;
               this = this\<lparr>m_WorkingDirectory := workingDirectory\<rparr>
           in if m_WorkingDirectory this = [] then (Returns storage, this, fs, h)
              else
                let this = this\<lparr>m_UnzipErrors := unzip_errors env filename\<rparr>
                in if unzip_raises env filename then (Raises, this, fs, h)
                   else
                     let indexFile = m_WorkingDirectory this @ [GetDirectorySeparator env]
                           @ ''index.xml'';
                         (result, h) =
                           LoadSceneUnzipped env ld h indexFile storage clearStorageFirst
                     in (case result of
                           Raises \<Rightarrow> (Raises, this, fs, h)
                         | Returns storage \<Rightarrow>
                             let fs = (case remove_dir env fs
                                              (Poco_File env (m_WorkingDirectory this)) of
                                         Raises \<Rightarrow> fs
                                       | Returns fs \<Rightarrow> fs)
                             in (Returns storage, this, fs, h)))"

subsection \<open>Reading a manifest\<close>

definition node_elements :: "xml list \<Rightarrow> xml list" where
  "node_elements document = filter (\<lambda>e. Value e = ''node'') document"

definition own_uid :: "xml \<Rightarrow> string option" where
  "own_uid e = Attribute e ''UID''"

definition dependency_uids :: "xml \<Rightarrow> string option list" where
  "dependency_uids e = map (\<lambda>c. Attribute c ''UID'') (children_named ''source'' e)"

text \<open>The pointers of a node set that are not null, in order.\<close>

definition non_null :: "node option list \<Rightarrow> node list" where
  "non_null sceneNodes = concat (map (\<lambda>p. case p of None \<Rightarrow> [] | Some n \<Rightarrow> [n]) sceneNodes)"

subsection \<open>A small scene\<close>

text \<open>
  Node 0 carries an image, node 1 a surface derived from node 0, node 2 an image derived
  from node 3. Images have a serializer (the second candidate of the factory); the
  serializer of surfaces raises.
\<close>

definition example_platform :: platform where
  "example_platform =
     \<lparr>temp = ''/tmp/'', separator = CHR ''/'', OptionDirectory = ''/home/user/.mitk'',
      source_file = ''mitkSceneIO.cpp'',
      dir_uid_parts = (\<lambda>k. replicate (Suc k) CHR ''a''),
      node_uid_parts = (\<lambda>k. replicate (Suc k) CHR ''x''),
      mkdir_raises = (\<lambda>p. False), SaveFile_ok = (\<lambda>p. True),
      remove_raises = (\<lambda>p. False), ofstream_good = (\<lambda>p. True),
      ifstream_good = (\<lambda>p. True), zip_raises = (\<lambda>p. False),
      unzip_raises = (\<lambda>p. False), unzip_errors = (\<lambda>p. 0), MakeCindentifier = (\<lambda>n. n),
      SplitProgramPath = (\<lambda>p. (''/tmp/SceneIOTempUID_a'', ''index.xml'')),
      GetDirectorySeparator = CHR ''/''\<rparr>"

definition example_registry :: registry where
  "example_registry =
     \<lparr>CreateAllInstance =
        (\<lambda>name. if name = ''ImageSerializer'' then
                   [NotASerializer, BaseDataSerializer (\<lambda>d hint wd. Returns (hint @ ''.nrrd''))]
                 else if name = ''SurfaceSerializer'' then
                   [BaseDataSerializer (\<lambda>d hint wd. Raises)]
                 else []),
      PropertyListSerializer = (\<lambda>pl hint wd. Returns (hint, None)),
      ConcatenatePropertyList = (\<lambda>a b. \<lparr>properties = properties a @ properties b\<rparr>),
      node_at =
        (\<lambda>n. if n = 1 then
                 \<lparr>Name = ''surface'',
                  Data = Some \<lparr>NameOfClass = ''Surface'', data_PropertyList = None\<rparr>,
                  m_MapOfPropertyLists = [], m_PropertyList = None\<rparr>
               else
                 \<lparr>Name = ''image'',
                  Data = Some \<lparr>NameOfClass = ''Image'', data_PropertyList = None\<rparr>,
                  m_MapOfPropertyLists = [], m_PropertyList = None\<rparr>)\<rparr>"

definition example_storage :: DataStorage where
  "example_storage =
     \<lparr>GetAll = [0, 1, 2, 3],
      GetSources = (\<lambda>n. if n = 1 then [0] else if n = 2 then [3] else [])\<rparr>"

text \<open>
  A loader whose manifest parses and whose reader adds node 7 but reports that not every
  record could be read, and a loader whose manifest does not parse; the bulk removal
  completes in both.
\<close>

definition example_loader :: loader where
  "example_loader =
     \<lparr>LoadFile = (\<lambda>p. Some [Element ''node'' [] []]),
      SceneReader_LoadScene = (\<lambda>document dir storage. (Returns False, [(7, [])])),
      Remove_raises = (\<lambda>storage nodes. None)\<rparr>"

definition unparsable_loader :: loader where
  "unparsable_loader =
     \<lparr>LoadFile = (\<lambda>p. None),
      SceneReader_LoadScene = (\<lambda>document dir storage. (Returns False, [(7, [])])),
      Remove_raises = (\<lambda>storage nodes. None)\<rparr>"

definition empty_filesystem :: filesystem where
  "empty_filesystem = \<lparr>dirs = {}, files = Map.empty\<rparr>"

subsection \<open>Auxiliary notions for the statements\<close>

text \<open>The element written for one dependency (lines 352-354).\<close>

definition source_element :: "string \<Rightarrow> xml" where
  "source_element uid = Element ''source'' [(''UID'', uid)] []"

text \<open>
  The flag \<^verbatim>\<open>error\<close> that \<^verbatim>\<open>SaveBaseData\<close> reports for the payload of a node
  (line 363), in a working directory; false for a node without payload.
\<close>

definition payload_fails :: "platform \<Rightarrow> registry \<Rightarrow> string \<Rightarrow> node \<Rightarrow> bool" where
  "payload_fails env reg wd node =
     (case Data (node_at reg node) of
        None \<Rightarrow> False
      | Some data \<Rightarrow>
          snd (SaveBaseData reg (SceneIO_New\<lparr>m_WorkingDirectory := wd\<rparr>) data
            (MakeCindentifier env (Name (node_at reg node)))))"

text \<open>
  The file the serializer of a payload writes, read off the factory and the serializer:
  the first candidate that is a serializer decides; there is no file when there is no such
  candidate or when it raises.
\<close>

definition written_file :: "registry \<Rightarrow> string \<Rightarrow> BaseData \<Rightarrow> string \<Rightarrow> string option" where
  "written_file reg wd data hint =
     (case dropWhile (\<lambda>c. c = NotASerializer)
             (CreateAllInstance reg (NameOfClass data @ ''Serializer'')) of
        BaseDataSerializer Serialize # rest \<Rightarrow>
          (case Serialize data hint wd of Returns written \<Rightarrow> Some written | Raises \<Rightarrow> None)
      | _ \<Rightarrow> None)"

text \<open>The list a map of lists holds at a key: empty when the key is absent.\<close>

abbreviation lookup :: "('k \<rightharpoonup> 'v list) \<Rightarrow> 'k \<Rightarrow> 'v list" where
  "lookup S k \<equiv> (case S k of None \<Rightarrow> [] | Some l \<Rightarrow> l)"

text \<open>
  Invariant of the first loop on the identifier map and the generator: the generator has
  prefix \<open>P\<close> and parts \<open>f\<close>; every key has an identifier generated so far; different
  keys have different identifiers; as many identifiers were generated as there are keys.
\<close>

definition uid_inv :: "string \<Rightarrow> (nat \<Rightarrow> string) \<Rightarrow> UIDMapType \<Rightarrow> UIDGenerator \<Rightarrow> bool" where
  "uid_inv P f m g \<longleftrightarrow>
     m_Prefix g = P \<and> parts g = f \<and> finite (dom m) \<and> card (dom m) = issued g
     \<and> inj_on m (dom m) \<and> (\<forall>k u. m k = Some u \<longrightarrow> (\<exists>i<issued g. u = P @ f i))"

text \<open>The sources of a node that are in the node set (the test of line 305).\<close>

definition persisted_sources :: "node option list \<Rightarrow> DataStorage \<Rightarrow> node \<Rightarrow> node list" where
  "persisted_sources sceneNodes storage node =
     filter (\<lambda>s. Some s \<in> set sceneNodes) (GetSources storage node)"

text \<open>
  Invariant of the first loop on the map of dependencies: a list it holds is not empty and
  consists of the identifiers of the node's sources that are in the node set.
\<close>

definition src_inv ::
  "node option list \<Rightarrow> DataStorage \<Rightarrow> UIDMapType \<Rightarrow> SourcesMapType \<Rightarrow> bool" where
  "src_inv N G m S \<longleftrightarrow>
     (\<forall>k l. S k = Some l \<longrightarrow>
        l \<noteq> [] \<and> set l = (\<lambda>s. the (m s)) ` set (persisted_sources N G k)
        \<and> set (persisted_sources N G k) \<subseteq> dom m)"

section \<open>Properties\<close>

subsection \<open>Loading: what is returned\<close>

lemma prepare_storage_Some [simp]: "prepare_storage h (Some a) = (Some a, h)"
  by (simp add: prepare_storage_def)

lemma prepare_storage_None [simp]:
  "prepare_storage h None = (Some (length h), h @ [StandaloneDataStorage_New])"
  by (simp add: prepare_storage_def)

lemma GetAll_Remove_all [simp]: "GetAll (Remove storage (GetAll storage)) = []"
  by (simp add: Remove_def)

lemma GetAll_foldl_Add: "GetAll (foldl Add storage added) = GetAll storage @ map fst added"
  by (induction added arbitrary: storage) (simp_all add: Add_def)

lemma GetAll_clear_storage:
  "GetAll (clear_storage ld clear storage) =
     (if clear then
        (case Remove_raises ld storage (GetAll storage) of
           None \<Rightarrow> []
         | Some left \<Rightarrow> GetAll left)
      else GetAll storage)"
  by (simp add: clear_storage_def split: option.splits)

text \<open>The storage a load works on: the caller's, or a new one.\<close>

lemma LoadSceneUnzipped_None:
  "LoadSceneUnzipped env ld h indexfilename None clear =
     LoadSceneUnzipped env ld (h @ [StandaloneDataStorage_New]) indexfilename (Some (length h)) clear"
  by (simp add: LoadSceneUnzipped_def)


lemma LoadSceneUnzipped_Some:
  assumes "a < length h"
  shows "LoadSceneUnzipped env ld h indexfilename (Some a) clear =
     (let before = clear_storage ld clear (h ! a)
      in if indexfilename = [] then (Returns (Some a), h[a := before])
         else case LoadFile ld indexfilename of
                None \<Rightarrow> (Returns (Some a), h[a := before])
              | Some document \<Rightarrow>
                  (case fst (SceneReader_LoadScene ld document
                          (fst (SplitProgramPath env indexfilename)) before) of
                     Raises \<Rightarrow> Raises
                   | Returns ok \<Rightarrow> Returns (Some a),
                   h[a := foldl Add before
                       (snd (SceneReader_LoadScene ld document
                          (fst (SplitProgramPath env indexfilename)) before))]))"
  using assms
  by (simp add: LoadSceneUnzipped_def Let_def case_prod_unfold split: option.splits outcome.splits)





lemma LoadScene_unzipped:
  assumes "filename \<noteq> []" "ifstream_good env filename"
    and "fst (CreateEmptyTempDirectory env fs) \<noteq> []" "\<not> unzip_raises env filename"
  shows "fst (LoadScene env ld (this, fs, h) filename (Some a) clear) =
           fst (LoadSceneUnzipped env ld h
                  (fst (CreateEmptyTempDirectory env fs) @ [GetDirectorySeparator env]
                     @ ''index.xml'') (Some a) clear)"
    and "snd (snd (snd (LoadScene env ld (this, fs, h) filename (Some a) clear))) =
           snd (LoadSceneUnzipped env ld h
                  (fst (CreateEmptyTempDirectory env fs) @ [GetDirectorySeparator env]
                     @ ''index.xml'') (Some a) clear)"
  using assms
  by (simp_all add: LoadScene_def Let_def case_prod_unfold split: outcome.splits)




lemma example_staging:
  "CreateEmptyTempDirectory example_platform empty_filesystem =
     (''/tmp/SceneIOTempUID_a'', snd (CreateEmptyTempDirectory example_platform empty_filesystem))"
proof -
  have "fst (CreateEmptyTempDirectory example_platform empty_filesystem) = ''/tmp/SceneIOTempUID_a''"
    by code_simp
  then show ?thesis
    by (simp add: prod_eq_iff)
qed




subsection \<open>Loading: clearing the destination\<close>

lemma LoadScene_staged:
  assumes "filename \<noteq> []" "ifstream_good env filename"
    and "CreateEmptyTempDirectory env fs = (wd, fs1)" "wd \<noteq> []" "\<not> unzip_raises env filename"
  shows "fst (LoadScene env ld (this, fs, h) filename (Some a) clear) =
           fst (LoadSceneUnzipped env ld h (wd @ [GetDirectorySeparator env] @ ''index.xml'')
                  (Some a) clear)"
    and "snd (snd (snd (LoadScene env ld (this, fs, h) filename (Some a) clear))) =
           snd (LoadSceneUnzipped env ld h (wd @ [GetDirectorySeparator env] @ ''index.xml'')
                  (Some a) clear)"
  using LoadScene_unzipped [of filename env fs ld this h a clear] assms
  by simp_all

text \<open>
  Claim C7, as the code has it. A load that reaches the reconstruction (the file name is
  not empty, the archive opens and unpacks, the staging directory is there, the manifest
  parses) hands the reader the destination storage \<open>a\<close> as the clearing step leaves it:
  without \<^verbatim>\<open>clearStorageFirst\<close> untouched; with it emptied when the bulk removal
  completes, and as the removal left it when the removal raises (which is logged and
  does not stop the load). Afterwards the storage holds those nodes followed by the
  nodes the reader added.
\<close>

theorem LoadScene_clear_first:
  assumes "a < length h" "filename \<noteq> []" "ifstream_good env filename"
    and "CreateEmptyTempDirectory env fs = (wd, fs1)" "wd \<noteq> []" "\<not> unzip_raises env filename"
    and "LoadFile ld (wd @ [GetDirectorySeparator env] @ ''index.xml'') = Some document"
    and "SplitProgramPath env (wd @ [GetDirectorySeparator env] @ ''index.xml'') = (dir, name)"
    and "SceneReader_LoadScene ld document dir (clear_storage ld clearStorageFirst (h ! a))
           = (report, added)"
  shows "GetAll (clear_storage ld clearStorageFirst (h ! a))
        = (if clearStorageFirst then
             (case Remove_raises ld (h ! a) (GetAll (h ! a)) of
                None \<Rightarrow> []
              | Some left \<Rightarrow> GetAll left)
           else GetAll (h ! a))
    \<and> GetAll (snd (snd (snd
          (LoadScene env ld (this, fs, h) filename (Some a) clearStorageFirst))) ! a)
        = GetAll (clear_storage ld clearStorageFirst (h ! a)) @ map fst added"
proof
  show "GetAll (clear_storage ld clearStorageFirst (h ! a))
        = (if clearStorageFirst then
             (case Remove_raises ld (h ! a) (GetAll (h ! a)) of
                None \<Rightarrow> []
              | Some left \<Rightarrow> GetAll left)
           else GetAll (h ! a))"
    by (rule GetAll_clear_storage)
  have "snd (snd (snd (LoadScene env ld (this, fs, h) filename (Some a) clearStorageFirst)))
      = snd (LoadSceneUnzipped env ld h (wd @ [GetDirectorySeparator env] @ ''index.xml'')
             (Some a) clearStorageFirst)"
    by (rule LoadScene_staged(2) [OF assms(2-6)])
  then show "GetAll (snd (snd (snd
          (LoadScene env ld (this, fs, h) filename (Some a) clearStorageFirst))) ! a)
        = GetAll (clear_storage ld clearStorageFirst (h ! a)) @ map fst added"
    using assms(1,7-9)
    by (simp add: LoadSceneUnzipped_Some Let_def GetAll_foldl_Add)
qed

theorem LoadScene_clear_first_witness:
  "GetAll
     (snd (snd (snd (LoadScene example_platform example_loader
        (SceneIO_New, empty_filesystem, [example_storage]) ''/in.mitk'' (Some 0) True))) ! 0)
     = [7]
   \<and> GetAll
     (snd (snd (snd (LoadScene example_platform example_loader
        (SceneIO_New, empty_filesystem, [example_storage]) ''/in.mitk'' (Some 0) False))) ! 0)
     = [0, 1, 2, 3, 7]"
proof -
  have reader: "SceneReader_LoadScene example_loader document dir storage
      = (Returns False, [(7, [])])" for document dir storage
    by (simp add: example_loader_def)
  have parsed: "LoadFile example_loader p = Some [Element ''node'' [] []]" for p
    by (simp add: example_loader_def)
  have completes: "Remove_raises example_loader storage nodes = None" for storage nodes
    by (simp add: example_loader_def)
  have split: "SplitProgramPath example_platform p = (''/tmp/SceneIOTempUID_a'', ''index.xml'')"
    for p
    by (simp add: example_platform_def)
  have readable: "ifstream_good example_platform ''/in.mitk''"
    and unpacks: "\<not> unzip_raises example_platform ''/in.mitk''"
    by (simp_all add: example_platform_def)
  have valid: "0 < length [example_storage]" and named: "''/in.mitk'' \<noteq> []"
    and staged: "''/tmp/SceneIOTempUID_a'' \<noteq> []"
    by simp_all
  show ?thesis
    using LoadScene_clear_first [OF valid named readable example_staging staged unpacks parsed
        split reader, of True SceneIO_New]
      LoadScene_clear_first [OF valid named readable example_staging staged unpacks parsed
        split reader, of False SceneIO_New]
    by (simp add: example_storage_def completes)
qed

text \<open>
  Claim C7, as stated, fails when the bulk removal raises: the handler of lines 179-182
  logs, and the reader is handed the storage with the nodes that were there before, which
  are still there beside the reloaded node after the load.
\<close>

theorem LoadScene_clear_first_removal_raises:
  "GetAll
     (snd (snd (snd (LoadScene example_platform
        (example_loader\<lparr>Remove_raises := (\<lambda>storage nodes. Some storage)\<rparr>)
        (SceneIO_New, empty_filesystem, [example_storage]) ''/in.mitk'' (Some 0) True))) ! 0)
     = [0, 1, 2, 3, 7]"
  by code_simp

text \<open>
  The staging directory on the load path: once it is there, every path on which
  \<^verbatim>\<open>LoadScene\<close> returns goes through its removal (lines 145-154).
\<close>

lemma LoadScene_removes_staging:
  assumes "filename \<noteq> []" "ifstream_good env filename"
    and "CreateEmptyTempDirectory env fs = (wd, fs1)" "wd \<noteq> []" "\<not> unzip_raises env filename"
    and "fst (LoadScene env ld (this, fs, h) filename pStorage clear) \<noteq> Raises"
    and "\<not> remove_raises env (Poco_File env wd)"
  shows "dirs (fst (snd (snd (LoadScene env ld (this, fs, h) filename pStorage clear))))
     = dirs fs1 - {Poco_File env wd}"
  using assms
  by (simp add: LoadScene_def Let_def case_prod_unfold remove_dir_def split: outcome.splits)

text \<open>
  Claim C9, as the code has it. With \<^verbatim>\<open>clearStorageFirst\<close> set, the destination is
  cleared before the manifest is opened: when the manifest then fails to parse, the load
  returns the storage without restoring anything, that is without any of the nodes it
  held before when the bulk removal completed, and as the removal left it when the
  removal raised. The same holds of \<^verbatim>\<open>LoadSceneUnzipped\<close> called on the manifest
  directly.
\<close>

theorem LoadScene_clears_before_parsing:
  assumes "a < length h" "filename \<noteq> []" "ifstream_good env filename"
    and "CreateEmptyTempDirectory env fs = (wd, fs1)" "wd \<noteq> []" "\<not> unzip_raises env filename"
    and "LoadFile ld (wd @ [GetDirectorySeparator env] @ ''index.xml'') = None"
  shows "fst (LoadScene env ld (this, fs, h) filename (Some a) True) = Returns (Some a)
    \<and> GetAll (snd (snd (snd (LoadScene env ld (this, fs, h) filename (Some a) True))) ! a)
        = (case Remove_raises ld (h ! a) (GetAll (h ! a)) of
             None \<Rightarrow> []
           | Some left \<Rightarrow> GetAll left)
    \<and> GetAll (snd (LoadSceneUnzipped env ld h
          (wd @ [GetDirectorySeparator env] @ ''index.xml'') (Some a) True) ! a)
        = (case Remove_raises ld (h ! a) (GetAll (h ! a)) of
             None \<Rightarrow> []
           | Some left \<Rightarrow> GetAll left)"
proof -
  have unzipped: "LoadSceneUnzipped env ld h (wd @ [GetDirectorySeparator env] @ ''index.xml'')
      (Some a) True = (Returns (Some a), h[a := clear_storage ld True (h ! a)])"
    using assms(7) by (simp add: LoadSceneUnzipped_Some [OF assms(1)] Let_def)
  show ?thesis
    unfolding LoadScene_staged [OF assms(2-6)] unzipped
    using assms(1) by (simp add: GetAll_clear_storage)
qed

theorem LoadScene_clears_before_parsing_witness:
  "GetAll ([example_storage] ! 0) = [0, 1, 2, 3]
   \<and> fst (LoadScene example_platform unparsable_loader
        (SceneIO_New, empty_filesystem, [example_storage]) ''/in.mitk'' (Some 0) True)
     = Returns (Some 0)
   \<and> GetAll
     (snd (snd (snd (LoadScene example_platform unparsable_loader
        (SceneIO_New, empty_filesystem, [example_storage]) ''/in.mitk'' (Some 0) True))) ! 0)
     = []"
proof -
  have unparsed: "LoadFile unparsable_loader p = None" for p
    by (simp add: unparsable_loader_def)
  have completes: "Remove_raises unparsable_loader storage nodes = None" for storage nodes
    by (simp add: unparsable_loader_def)
  have readable: "ifstream_good example_platform ''/in.mitk''"
    and unpacks: "\<not> unzip_raises example_platform ''/in.mitk''"
    by (simp_all add: example_platform_def)
  have valid: "0 < length [example_storage]" and named: "''/in.mitk'' \<noteq> []"
    and staged: "''/tmp/SceneIOTempUID_a'' \<noteq> []"
    by simp_all
  show ?thesis
    using LoadScene_clears_before_parsing [OF valid named readable example_staging staged
        unpacks unparsed, of SceneIO_New]
    by (simp add: example_storage_def completes)
qed

text \<open>
  Claim C9, as stated, fails when the bulk removal raises: the manifest does not parse,
  and the load returns the storage with all the nodes it held before.
\<close>

theorem LoadScene_unparsed_removal_raises:
  "fst (LoadScene example_platform
          (unparsable_loader\<lparr>Remove_raises := (\<lambda>storage nodes. Some storage)\<rparr>)
          (SceneIO_New, empty_filesystem, [example_storage]) ''/in.mitk'' (Some 0) True)
     = Returns (Some 0)
   \<and> GetAll
     (snd (snd (snd (LoadScene example_platform
        (unparsable_loader\<lparr>Remove_raises := (\<lambda>storage nodes. Some storage)\<rparr>)
        (SceneIO_New, empty_filesystem, [example_storage]) ''/in.mitk'' (Some 0) True))) ! 0)
     = [0, 1, 2, 3]"
  by code_simp


subsection \<open>Saving: the manifest record of a node\<close>

lemma store_dependencies_shape:
  "store_dependencies m S n (Element v [] cs) =
     Element v (case m n of Some u \<Rightarrow> [(''UID'', u)] | None \<Rightarrow> [])
       (cs @ map source_element (case S n of Some l \<Rightarrow> l | None \<Rightarrow> []))"
proof -
  have "foldl (\<lambda>e uid. LinkEndChild e (SetAttribute (Element ''source'' [] []) ''UID'' uid))
          (Element v as cs) l = Element v as (cs @ map source_element l)" for as l cs
    by (induction l arbitrary: cs) (simp_all add: source_element_def)
  then show ?thesis
    by (simp add: store_dependencies_def split: option.splits)
qed

lemma serializer_loop_shape:
  assumes "''file'' \<notin> fst ` set as"
  shows "serializer_loop wd d hint cands (Element v as cs) =
     (case dropWhile (\<lambda>c. c = NotASerializer) cands of
        BaseDataSerializer Serialize # rest \<Rightarrow>
          (case Serialize d hint wd of
             Returns written \<Rightarrow> (Element v (as @ [(''file'', written)]) cs, False)
           | Raises \<Rightarrow> (Element v as cs, True))
      | _ \<Rightarrow> (Element v as cs, True))"
  using assms
proof (induction cands)
  case Nil
  then show ?case by simp
next
  case (Cons c cands)
  then show ?case
    by (cases c) (simp_all split: outcome.splits)
qed

lemma SaveBaseData_shape:
  "SaveBaseData reg this d hint =
     (Element ''data''
        ((''type'', NameOfClass d) #
         (case written_file reg (m_WorkingDirectory this) d hint of
            None \<Rightarrow> []
          | Some f \<Rightarrow> [(''file'', f)]))
        [],
      written_file reg (m_WorkingDirectory this) d hint = None)"
proof -
  define L where "L = dropWhile (\<lambda>c. c = NotASerializer)
    (CreateAllInstance reg (NameOfClass d @ ''Serializer''))"
  have "serializer_loop (m_WorkingDirectory this) d hint
          (CreateAllInstance reg (NameOfClass d @ ''Serializer''))
          (Element ''data'' [(''type'', NameOfClass d)] []) =
     (case L of
        BaseDataSerializer Serialize # rest \<Rightarrow>
          (case Serialize d hint (m_WorkingDirectory this) of
             Returns written \<Rightarrow>
               (Element ''data'' ([(''type'', NameOfClass d)] @ [(''file'', written)]) [], False)
           | Raises \<Rightarrow> (Element ''data'' [(''type'', NameOfClass d)] [], True))
      | _ \<Rightarrow> (Element ''data'' [(''type'', NameOfClass d)] [], True))"
    unfolding L_def by (rule serializer_loop_shape) simp
  then show ?thesis
    unfolding written_file_def L_def [symmetric]
    by (simp add: SaveBaseData_def split: list.split candidate.split outcome.split)
qed

lemma SavePropertyList_Value [simp]: "Value (fst (SavePropertyList reg this pl hint)) = ''properties''"
  by (simp add: SavePropertyList_def Let_def split: outcome.splits option.splits prod.splits)

lemma SavePropertyList_members [simp]:
  "m_WorkingDirectory (snd (SavePropertyList reg this pl hint)) = m_WorkingDirectory this"
  "m_FailedNodes (snd (SavePropertyList reg this pl hint)) = m_FailedNodes this"
  by (simp_all add: SavePropertyList_def Let_def split: outcome.splits option.splits prod.splits)

lemma Value_SetAttribute [simp]: "Value (SetAttribute e k x) = Value e"
  by (cases e) simp_all

lemma SaveBaseData_working_directory:
  "m_WorkingDirectory this = m_WorkingDirectory that \<Longrightarrow>
     SaveBaseData reg this d hint = SaveBaseData reg that d hint"
  by (simp add: SaveBaseData_def)

lemma store_basedata_shape:
  "\<exists>dataprops.
     fst (store_basedata reg n hint (Element v as cs, this)) =
       Element v as
         (cs @ (case Data (node_at reg n) of
                  None \<Rightarrow> []
                | Some d \<Rightarrow>
                    [Element ''data''
                       ((''type'', NameOfClass d) #
                        (case written_file reg (m_WorkingDirectory this) d hint of
                           None \<Rightarrow> []
                         | Some f \<Rightarrow> [(''file'', f)]))
                       dataprops]))"
proof (cases "Data (node_at reg n)")
  case None
  then show ?thesis by (simp add: store_basedata_def)
next
  case (Some d)
  have f: "fst (SaveBaseData reg this d hint) =
     Element ''data''
        ((''type'', NameOfClass d) #
         (case written_file reg (m_WorkingDirectory this) d hint of
            None \<Rightarrow> []
          | Some f \<Rightarrow> [(''file'', f)]))
        []"
    by (subst SaveBaseData_shape) simp
  define this1 where "this1 =
     (if snd (SaveBaseData reg this d hint)
      then this\<lparr>m_FailedNodes := map_option (\<lambda>l. l @ [n]) (m_FailedNodes this)\<rparr> else this)"
  have "fst (store_basedata reg n hint (Element v as cs, this)) =
     Element v as
       (cs @ [case data_PropertyList d of
                None \<Rightarrow> fst (SaveBaseData reg this d hint)
              | Some pl \<Rightarrow>
                  if \<not> IsEmpty pl then
                    LinkEndChild (fst (SaveBaseData reg this d hint))
                      (fst (SavePropertyList reg this1 pl (hint @ ''-data'')))
                  else fst (SaveBaseData reg this d hint)])"
    using Some
    by (simp add: store_basedata_def Let_def case_prod_unfold this1_def split: option.splits)
  then show ?thesis
    using Some by (subst (asm) (1 2 3) f) (auto split: option.splits)
qed

lemma store_basedata_members:
  "m_WorkingDirectory (snd (store_basedata reg n hint (e, this))) = m_WorkingDirectory this"
  "m_FailedNodes (snd (store_basedata reg n hint (e, this))) =
     (case Data (node_at reg n) of
        None \<Rightarrow> m_FailedNodes this
      | Some d \<Rightarrow>
          if snd (SaveBaseData reg this d hint)
          then map_option (\<lambda>l. l @ [n]) (m_FailedNodes this) else m_FailedNodes this)"
  by (simp_all add: store_basedata_def Let_def case_prod_unfold split: option.splits)

lemma renderwindow_loop_shape:
  "\<exists>props. fst (renderwindow_loop reg obj hint names (Element v as cs, this)) =
       Element v as (cs @ props) \<and> (\<forall>p \<in> set props. Value p = ''properties'')"
proof (induction names arbitrary: cs this)
  case Nil
  then show ?case by simp
next
  case (Cons name names)
  show ?case
  proof (cases "map_of (m_MapOfPropertyLists obj) name")
    case None
    then show ?thesis using Cons.IH [of cs this] by simp
  next
    case (Some pl)
    show ?thesis
    proof (cases "IsEmpty pl")
      case True
      then show ?thesis using Some Cons.IH [of cs this] by simp
    next
      case False
      define r where "r = SavePropertyList reg this pl (hint @ ''-'' @ name)"
      define p where "p = SetAttribute (fst r) ''renderwindow'' name"
      have vp: "Value p = ''properties''"
        by (simp add: p_def r_def)
      from Cons.IH [of "cs @ [p]" "snd r"] obtain props where
        "fst (renderwindow_loop reg obj hint names (Element v as (cs @ [p]), snd r)) =
           Element v as ((cs @ [p]) @ props)" "\<forall>q \<in> set props. Value q = ''properties''"
        by blast
      then have "fst (renderwindow_loop reg obj hint (name # names) (Element v as cs, this)) =
           Element v as (cs @ (p # props)) \<and> (\<forall>q \<in> set (p # props). Value q = ''properties'')"
        using Some False vp by (simp add: Let_def case_prod_unfold p_def r_def)
      then show ?thesis by blast
    qed
  qed
qed

lemma renderwindow_loop_members:
  "m_WorkingDirectory (snd (renderwindow_loop reg obj hint names (e, this))) = m_WorkingDirectory this
   \<and> m_FailedNodes (snd (renderwindow_loop reg obj hint names (e, this))) = m_FailedNodes this"
  by (induction names arbitrary: e this)
    (simp_all add: Let_def case_prod_unfold split: option.splits)

lemma store_node_properties_shape:
  "\<exists>props. fst (store_node_properties reg obj hint (Element v as cs, this)) =
       Element v as (cs @ props) \<and> (\<forall>p \<in> set props. Value p = ''properties'')"
proof (cases "m_PropertyList obj")
  case None
  then show ?thesis by (simp add: store_node_properties_def)
next
  case (Some pl)
  show ?thesis
  proof (cases "IsEmpty pl")
    case True
    then show ?thesis using Some by (simp add: store_node_properties_def)
  next
    case False
    then have "fst (store_node_properties reg obj hint (Element v as cs, this)) =
        Element v as (cs @ [fst (SavePropertyList reg this pl (hint @ ''-node''))])"
      using Some by (simp add: store_node_properties_def Let_def case_prod_unfold)
    then show ?thesis
      by (intro exI [of _ "[fst (SavePropertyList reg this pl (hint @ ''-node''))]"]) simp
  qed
qed

lemma store_node_properties_members:
  "m_WorkingDirectory (snd (store_node_properties reg obj hint (e, this))) = m_WorkingDirectory this
   \<and> m_FailedNodes (snd (store_node_properties reg obj hint (e, this))) = m_FailedNodes this"
  by (simp add: store_node_properties_def Let_def case_prod_unfold split: option.splits)


lemma renderwindow_loop_shape':
  assumes "fst s = Element v as cs"
  shows "\<exists>props. fst (renderwindow_loop reg obj hint names s) = Element v as (cs @ props)
     \<and> (\<forall>p \<in> set props. Value p = ''properties'')"
proof -
  have "s = (Element v as cs, snd s)"
    using assms by (simp add: prod_eq_iff)
  then show ?thesis
    using renderwindow_loop_shape [of reg obj hint names v as cs "snd s"] by simp
qed

lemma store_node_properties_shape':
  assumes "fst s = Element v as cs"
  shows "\<exists>props. fst (store_node_properties reg obj hint s) = Element v as (cs @ props)
     \<and> (\<forall>p \<in> set props. Value p = ''properties'')"
proof -
  have "s = (Element v as cs, snd s)"
    using assms by (simp add: prod_eq_iff)
  then show ?thesis
    using store_node_properties_shape [of reg obj hint v as cs "snd s"] by simp
qed

lemma write_node_unfold:
  "write_node env reg m S n this =
     store_node_properties reg (node_at reg n) (MakeCindentifier env (Name (node_at reg n)))
       (renderwindow_loop reg (node_at reg n) (MakeCindentifier env (Name (node_at reg n)))
          (map fst (m_MapOfPropertyLists (node_at reg n)))
          (store_basedata reg n (MakeCindentifier env (Name (node_at reg n)))
             (store_dependencies m S n (Element ''node'' [] []), this)))"
  by (simp add: write_node_def Let_def)

lemma payload_fails_eq:
  "payload_fails env reg (m_WorkingDirectory this) n =
     (case Data (node_at reg n) of
        None \<Rightarrow> False
      | Some d \<Rightarrow> snd (SaveBaseData reg this d (MakeCindentifier env (Name (node_at reg n)))))"
proof (cases "Data (node_at reg n)")
  case None
  then show ?thesis by (simp add: payload_fails_def)
next
  case (Some d)
  have "SaveBaseData reg (SceneIO_New\<lparr>m_WorkingDirectory := m_WorkingDirectory this\<rparr>) d hint
      = SaveBaseData reg this d hint" for hint
    by (rule SaveBaseData_working_directory) simp
  then show ?thesis
    using Some by (simp add: payload_fails_def)
qed

lemma payload_fails_written_file:
  "payload_fails env reg wd n =
     (case Data (node_at reg n) of
        None \<Rightarrow> False
      | Some d \<Rightarrow> written_file reg wd d (MakeCindentifier env (Name (node_at reg n))) = None)"
  by (simp add: payload_fails_def SaveBaseData_shape split: option.splits)

lemma write_node_shape:
  "\<exists>dataprops props.
     fst (write_node env reg m S n this) =
       Element ''node'' (case m n of Some u \<Rightarrow> [(''UID'', u)] | None \<Rightarrow> [])
         (map source_element (case S n of Some l \<Rightarrow> l | None \<Rightarrow> [])
          @ (case Data (node_at reg n) of
               None \<Rightarrow> []
             | Some d \<Rightarrow>
                 [Element ''data''
                    ((''type'', NameOfClass d) #
                     (case written_file reg (m_WorkingDirectory this) d
                             (MakeCindentifier env (Name (node_at reg n))) of
                        None \<Rightarrow> []
                      | Some f \<Rightarrow> [(''file'', f)]))
                    dataprops])
          @ props)
     \<and> (\<forall>p \<in> set props. Value p = ''properties'')"
proof -
  define obj where "obj = node_at reg n"
  define hint where "hint = MakeCindentifier env (Name obj)"
  define as where "as = (case m n of Some u \<Rightarrow> [(''UID'', u)] | None \<Rightarrow> [])"
  define cs0 where "cs0 = map source_element (case S n of Some l \<Rightarrow> l | None \<Rightarrow> [])"
  have e0: "store_dependencies m S n (Element ''node'' [] []) = Element ''node'' as cs0"
    by (simp add: store_dependencies_shape as_def cs0_def)
  define s1 where "s1 = store_basedata reg n hint (Element ''node'' as cs0, this)"
  obtain dataprops where s1: "fst s1 = Element ''node'' as
         (cs0 @ (case Data (node_at reg n) of
                  None \<Rightarrow> []
                | Some d \<Rightarrow>
                    [Element ''data''
                       ((''type'', NameOfClass d) #
                        (case written_file reg (m_WorkingDirectory this) d hint of
                           None \<Rightarrow> []
                         | Some f \<Rightarrow> [(''file'', f)]))
                       dataprops]))" (is "_ = Element _ _ ?cs1")
    using store_basedata_shape [of reg n hint "''node''" as cs0 this]
    unfolding s1_def by blast
  define s2 where "s2 = renderwindow_loop reg obj hint (map fst (m_MapOfPropertyLists obj)) s1"
  obtain props2 where s2: "fst s2 = Element ''node'' as (?cs1 @ props2)"
      "\<forall>p \<in> set props2. Value p = ''properties''"
    using renderwindow_loop_shape' [OF s1, of reg obj hint "map fst (m_MapOfPropertyLists obj)"]
    unfolding s2_def by blast
  obtain props3 where s3: "fst (store_node_properties reg obj hint s2) =
        Element ''node'' as ((?cs1 @ props2) @ props3)"
      "\<forall>p \<in> set props3. Value p = ''properties''"
    using store_node_properties_shape' [OF s2(1), of reg obj hint] by blast
  have "write_node env reg m S n this = store_node_properties reg obj hint s2"
    by (simp add: write_node_unfold e0 s1_def s2_def obj_def hint_def)
  then have "fst (write_node env reg m S n this) = Element ''node'' as (cs0 @
         (case Data (node_at reg n) of
                  None \<Rightarrow> []
                | Some d \<Rightarrow>
                    [Element ''data''
                       ((''type'', NameOfClass d) #
                        (case written_file reg (m_WorkingDirectory this) d hint of
                           None \<Rightarrow> []
                         | Some f \<Rightarrow> [(''file'', f)]))
                       dataprops]) @ (props2 @ props3))
      \<and> (\<forall>p \<in> set (props2 @ props3). Value p = ''properties'')"
    using s3 s2(2) by auto
  then show ?thesis
    unfolding as_def cs0_def hint_def obj_def by blast
qed

lemma write_node_members:
  "m_WorkingDirectory (snd (write_node env reg m S n this)) = m_WorkingDirectory this"
  "m_FailedNodes (snd (write_node env reg m S n this)) =
     (if payload_fails env reg (m_WorkingDirectory this) n
      then map_option (\<lambda>l. l @ [n]) (m_FailedNodes this) else m_FailedNodes this)"
proof -
  define obj where "obj = node_at reg n"
  define hint where "hint = MakeCindentifier env (Name obj)"
  define e0 where "e0 = store_dependencies m S n (Element ''node'' [] [])"
  define s1 where "s1 = store_basedata reg n hint (e0, this)"
  define s2 where "s2 = renderwindow_loop reg obj hint (map fst (m_MapOfPropertyLists obj)) s1"
  have w: "write_node env reg m S n this = store_node_properties reg obj hint s2"
    by (simp add: write_node_unfold s1_def s2_def obj_def hint_def e0_def)
  have m3: "m_WorkingDirectory (snd (store_node_properties reg obj hint s2)) = m_WorkingDirectory (snd s2)"
      "m_FailedNodes (snd (store_node_properties reg obj hint s2)) = m_FailedNodes (snd s2)"
    using store_node_properties_members [of reg obj hint "fst s2" "snd s2"] by simp_all
  have m2: "m_WorkingDirectory (snd s2) = m_WorkingDirectory (snd s1)"
      "m_FailedNodes (snd s2) = m_FailedNodes (snd s1)"
    using renderwindow_loop_members [of reg obj hint _ "fst s1" "snd s1"]
    unfolding s2_def by simp_all
  have m1: "m_WorkingDirectory (snd s1) = m_WorkingDirectory this"
      "m_FailedNodes (snd s1) =
        (if payload_fails env reg (m_WorkingDirectory this) n
         then map_option (\<lambda>l. l @ [n]) (m_FailedNodes this) else m_FailedNodes this)"
    unfolding s1_def
    by (simp_all add: store_basedata_members payload_fails_eq hint_def obj_def split: option.splits)
  show "m_WorkingDirectory (snd (write_node env reg m S n this)) = m_WorkingDirectory this"
    by (simp add: w m1 m2 m3)
  show "m_FailedNodes (snd (write_node env reg m S n this)) =
     (if payload_fails env reg (m_WorkingDirectory this) n
      then map_option (\<lambda>l. l @ [n]) (m_FailedNodes this) else m_FailedNodes this)"
    by (simp only: w m1 m2 m3)
qed


lemma non_null_simps [simp]:
  "non_null [] = []"
  "non_null (None # ps) = non_null ps"
  "non_null (Some n # ps) = n # non_null ps"
  by (simp_all add: non_null_def)

lemma set_non_null: "set (non_null ps) = {n. Some n \<in> set ps}"
  by (induction ps) (auto simp: non_null_def split: option.splits)

lemma write_loop_Some:
  "write_loop env reg m S (Some n # nodes) (document, this) =
     write_loop env reg m S nodes
       (document @ [fst (write_node env reg m S n this)], snd (write_node env reg m S n this))"
  by (simp add: Let_def case_prod_unfold)

lemma write_loop_entries:
  "\<exists>entries.
     fst (write_loop env reg m S nodes (document, this)) = document @ entries
     \<and> list_all2
          (\<lambda>n e. \<exists>that. m_WorkingDirectory that = m_WorkingDirectory this
                     \<and> e = fst (write_node env reg m S n that))
          (non_null nodes) entries"
proof (induction nodes arbitrary: document this)
  case Nil
  then show ?case by simp
next
  case (Cons p nodes)
  show ?case
  proof (cases p)
    case None
    then show ?thesis using Cons.IH [of document this] by simp
  next
    case (Some n)
    define e where "e = fst (write_node env reg m S n this)"
    define this1 where "this1 = snd (write_node env reg m S n this)"
    have wd: "m_WorkingDirectory this1 = m_WorkingDirectory this"
      by (simp add: this1_def write_node_members)
    from Cons.IH [of "document @ [e]" this1] obtain entries where
      entries: "fst (write_loop env reg m S nodes (document @ [e], this1)) = (document @ [e]) @ entries"
        "list_all2
          (\<lambda>n e. \<exists>that. m_WorkingDirectory that = m_WorkingDirectory this1
                     \<and> e = fst (write_node env reg m S n that))
          (non_null nodes) entries"
      by blast
    have "fst (write_loop env reg m S (p # nodes) (document, this)) = document @ (e # entries)"
      using entries(1) Some by (simp add: write_loop_Some e_def this1_def del: write_loop.simps)
    moreover have "list_all2
          (\<lambda>n e. \<exists>that. m_WorkingDirectory that = m_WorkingDirectory this
                     \<and> e = fst (write_node env reg m S n that))
          (non_null (p # nodes)) (e # entries)"
      using entries(2) Some unfolding wd by (auto simp: e_def)
    ultimately show ?thesis by blast
  qed
qed

lemma write_loop_members:
  "m_WorkingDirectory (snd (write_loop env reg m S nodes (document, this))) = m_WorkingDirectory this
   \<and> m_FailedNodes (snd (write_loop env reg m S nodes (document, this))) =
       map_option (\<lambda>l. l @ filter (payload_fails env reg (m_WorkingDirectory this)) (non_null nodes))
         (m_FailedNodes this)"
proof (induction nodes arbitrary: document this)
  case Nil
  then show ?case by (simp add: option.map_ident)
next
  case (Cons p nodes)
  show ?case
  proof (cases p)
    case None
    then show ?thesis using Cons.IH [of document this] by simp
  next
    case (Some n)
    define e where "e = fst (write_node env reg m S n this)"
    define this1 where "this1 = snd (write_node env reg m S n this)"
    have wd: "m_WorkingDirectory this1 = m_WorkingDirectory this"
      by (simp add: this1_def write_node_members)
    have fn: "m_FailedNodes this1 =
       (if payload_fails env reg (m_WorkingDirectory this) n
        then map_option (\<lambda>l. l @ [n]) (m_FailedNodes this) else m_FailedNodes this)"
      by (simp add: this1_def write_node_members)
    have step: "write_loop env reg m S (p # nodes) (document, this) =
        write_loop env reg m S nodes (document @ [e], this1)"
      using Some by (simp add: write_loop_Some e_def this1_def del: write_loop.simps)
    show ?thesis
      unfolding step using Cons.IH [of "document @ [e]" this1] Some
      by (simp add: wd fn option.map_comp comp_def)
  qed
qed

subsection \<open>Saving: the dependency pass\<close>

lemma assign_if_empty_eq:
  assumes "uid_inv P f m g" "P \<noteq> []"
  shows "assign_if_empty (m, g) k =
     (if k \<in> dom m then (m, g)
      else (m(k \<mapsto> P @ f (issued g)), g\<lparr>issued := Suc (issued g)\<rparr>))"
proof (cases "m k")
  case None
  then show ?thesis
    using assms by (simp add: assign_if_empty_def subscript_def GetUID_def uid_inv_def domIff)
next
  case (Some u)
  then have "u \<noteq> []"
    using assms by (auto simp: uid_inv_def)
  then show ?thesis
    using Some by (simp add: assign_if_empty_def subscript_def domIff)
qed

lemma uid_inv_assign:
  assumes "uid_inv P f m g" "P \<noteq> []" "inj f" "assign_if_empty (m, g) k = (m', g')"
  shows "uid_inv P f m' g'" "m \<subseteq>\<^sub>m m'" "dom m' = insert k (dom m)"
proof -
  show "uid_inv P f m' g'"
  proof (cases "k \<in> dom m")
    case True
    then show ?thesis
      using assms by (simp add: assign_if_empty_eq [OF assms(1,2)])
  next
    case False
    then have m': "m' = m(k \<mapsto> P @ f (issued g))" and g': "g' = g\<lparr>issued := Suc (issued g)\<rparr>"
      using assms(4) by (simp_all add: assign_if_empty_eq [OF assms(1,2)])
    have fresh: "m j \<noteq> Some (P @ f (issued g))" for j
    proof
      assume "m j = Some (P @ f (issued g))"
      then obtain i where "i < issued g" "P @ f (issued g) = P @ f i"
        using assms(1) by (auto simp: uid_inv_def)
      then show False
        using assms(3) by (auto dest: injD)
    qed
    have "inj_on m' (dom m')"
      using assms(1) False fresh
      unfolding m' uid_inv_def inj_on_def by (auto simp: domIff split: if_splits)
    moreover have "card (dom m') = issued g'"
      using assms(1) False unfolding m' g' uid_inv_def by simp
    moreover have "\<forall>j u. m' j = Some u \<longrightarrow> (\<exists>i<issued g'. u = P @ f i)"
      using assms(1) unfolding m' g' uid_inv_def by (auto simp: less_Suc_eq split: if_splits)
    ultimately show ?thesis
      using assms(1) unfolding uid_inv_def m' g' by simp
  qed
  show "m \<subseteq>\<^sub>m m'" "dom m' = insert k (dom m)"
    using assms(4) by (auto simp: assign_if_empty_eq [OF assms(1,2)] map_le_def split: if_splits)
qed


lemma subscript_present: "m k = Some v \<Longrightarrow> subscript m k d = (v, m)"
  by (simp add: subscript_def)

lemma sources_loop_step:
  assumes "uid_inv P f m g" "P \<noteq> []" "inj f" "Some source \<in> set N"
    and "assign_if_empty (m, g) source = (m1, g1)"
  shows "sources_loop N n (source # rest) (m, S, g) =
     sources_loop N n rest (m1, S(n \<mapsto> lookup S n @ [the (m1 source)]), g1)"
proof -
  have "source \<in> dom m1"
    using uid_inv_assign(3) [OF assms(1-3,5)] by simp
  then obtain u where u: "m1 source = Some u" by blast
  have S: "subscript S n [] = (lookup S n, S') \<Longrightarrow> S'(n \<mapsto> l) = S(n \<mapsto> l)" for S' l
    by (auto simp: subscript_def split: option.splits)
  show ?thesis
    using assms(4,5) u
    by (auto simp: subscript_present Let_def subscript_def split: option.splits)
qed

lemma sources_loop_skip:
  "Some source \<notin> set N \<Longrightarrow>
     sources_loop N n (source # rest) (m, S, g) = sources_loop N n rest (m, S, g)"
  by simp

lemma sources_loop_inv:
  assumes "uid_inv P f m g" "P \<noteq> []" "inj f"
    and "sources_loop N n srcs (m, S, g) = (m', S', g')"
  shows "uid_inv P f m' g' \<and> m \<subseteq>\<^sub>m m'
     \<and> dom m' = dom m \<union> {s \<in> set srcs. Some s \<in> set N}
     \<and> (\<forall>k. k \<noteq> n \<longrightarrow> S' k = S k)
     \<and> lookup S' n = lookup S n @ map (\<lambda>s. the (m' s)) (filter (\<lambda>s. Some s \<in> set N) srcs)
     \<and> (S' n = None \<longleftrightarrow> S n = None \<and> filter (\<lambda>s. Some s \<in> set N) srcs = [])"
  using assms(1,4)
proof (induction srcs arbitrary: m S g)
  case Nil
  then show ?case by simp
next
  case (Cons source rest)
  show ?case
  proof (cases "Some source \<in> set N")
    case False
    then have "sources_loop N n rest (m, S, g) = (m', S', g')"
      using Cons.prems(2) by simp
    from Cons.IH [OF Cons.prems(1) this] False show ?thesis
      by auto
  next
    case True
    obtain m1 g1 where a: "assign_if_empty (m, g) source = (m1, g1)"
      by (cases "assign_if_empty (m, g) source")
    note inv1 = uid_inv_assign [OF Cons.prems(1) assms(2,3) a]
    define S1 where "S1 = S(n \<mapsto> lookup S n @ [the (m1 source)])"
    have rest: "sources_loop N n rest (m1, S1, g1) = (m', S', g')"
      using Cons.prems(2) sources_loop_step [OF Cons.prems(1) assms(2,3) True a]
      unfolding S1_def by simp
    note IH = Cons.IH [OF inv1(1) rest]
    have le: "m1 \<subseteq>\<^sub>m m'" using IH by blast
    have "source \<in> dom m1" using inv1(3) by simp
    then have same: "the (m' source) = the (m1 source)"
      using le by (metis map_le_def)
    have "m \<subseteq>\<^sub>m m'"
      using inv1(2) le by (rule map_le_trans)
    moreover have "dom m' = dom m \<union> {s \<in> set (source # rest). Some s \<in> set N}"
      using IH inv1(3) True by auto
    moreover have "\<forall>k. k \<noteq> n \<longrightarrow> S' k = S k"
      using IH by (simp add: S1_def)
    moreover have "lookup S' n = lookup S n
        @ map (\<lambda>s. the (m' s)) (filter (\<lambda>s. Some s \<in> set N) (source # rest))"
      using IH True same by (simp add: S1_def)
    moreover have "S' n = None \<longleftrightarrow> S n = None \<and> filter (\<lambda>s. Some s \<in> set N) (source # rest) = []"
      using IH True by (simp add: S1_def)
    ultimately show ?thesis
      using IH by blast
  qed
qed


lemma map_le_the: "m \<subseteq>\<^sub>m m' \<Longrightarrow> s \<in> dom m \<Longrightarrow> the (m' s) = the (m s)"
  by (metis map_le_def)

lemma src_inv_mono:
  assumes "src_inv N G m S" "m \<subseteq>\<^sub>m m'"
  shows "src_inv N G m' S"
  unfolding src_inv_def
proof (intro allI impI)
  fix k l
  assume "S k = Some l"
  then have l: "l \<noteq> []" "set l = (\<lambda>s. the (m s)) ` set (persisted_sources N G k)"
      "set (persisted_sources N G k) \<subseteq> dom m"
    using assms(1) by (auto simp: src_inv_def)
  have "(\<lambda>s. the (m' s)) ` set (persisted_sources N G k)
      = (\<lambda>s. the (m s)) ` set (persisted_sources N G k)"
    using l(3) assms(2) by (intro image_cong refl map_le_the) auto
  moreover have "dom m \<subseteq> dom m'"
    using assms(2) by (rule map_le_implies_dom_le)
  ultimately show "l \<noteq> [] \<and> set l = (\<lambda>s. the (m' s)) ` set (persisted_sources N G k)
      \<and> set (persisted_sources N G k) \<subseteq> dom m'"
    using l by auto
qed

lemma src_inv_sources_loop:
  assumes "uid_inv P f m g" "P \<noteq> []" "inj f" "src_inv N G m S"
    and "sources_loop N n (GetSources G n) (m, S, g) = (m1, S1, g1)"
  shows "src_inv N G m1 S1"
proof -
  note L = sources_loop_inv [OF assms(1-3,5)]
  have le: "m \<subseteq>\<^sub>m m1" using L by blast
  have inv: "src_inv N G m1 S" using assms(4) le by (rule src_inv_mono)
  have dom1: "set (persisted_sources N G n) \<subseteq> dom m1"
    using L by (auto simp: persisted_sources_def)
  have look: "lookup S1 n = lookup S n @ map (\<lambda>s. the (m1 s)) (persisted_sources N G n)"
    using L by (simp add: persisted_sources_def)
  have none: "S1 n = None \<longleftrightarrow> S n = None \<and> persisted_sources N G n = []"
    using L by (simp add: persisted_sources_def)
  show ?thesis
    unfolding src_inv_def
  proof (intro allI impI)
    fix k l
    assume kl: "S1 k = Some l"
    show "l \<noteq> [] \<and> set l = (\<lambda>s. the (m1 s)) ` set (persisted_sources N G k)
      \<and> set (persisted_sources N G k) \<subseteq> dom m1"
    proof (cases "k = n")
      case False
      then have "S k = Some l" using L kl by simp
      then show ?thesis using inv by (auto simp: src_inv_def)
    next
      case True
      have l: "l = lookup S n @ map (\<lambda>s. the (m1 s)) (persisted_sources N G n)"
        using look kl True by simp
      show ?thesis
      proof (cases "S n")
        case None
        then have "persisted_sources N G n \<noteq> []"
          using none kl True by auto
        then show ?thesis
          using l None dom1 True by simp
      next
        case (Some l0)
        then have "l0 \<noteq> []" "set l0 = (\<lambda>s. the (m1 s)) ` set (persisted_sources N G n)"
          using inv by (auto simp: src_inv_def)
        then show ?thesis
          using l Some dom1 True by simp
      qed
    qed
  qed
qed

lemma dependencies_loop_Some:
  "dependencies_loop N G (Some n # rest) s =
     dependencies_loop N G rest
       (fst (assign_if_empty (fst (sources_loop N n (GetSources G n) s),
               snd (snd (sources_loop N n (GetSources G n) s))) n),
        fst (snd (sources_loop N n (GetSources G n) s)),
        snd (assign_if_empty (fst (sources_loop N n (GetSources G n) s),
               snd (snd (sources_loop N n (GetSources G n) s))) n))"
  by (simp add: Let_def case_prod_unfold)

lemma dependencies_loop_inv:
  assumes "P \<noteq> []" "inj f"
    and "uid_inv P f m g" "src_inv N G m S"
    and "dependencies_loop N G ps (m, S, g) = (m', S', g')"
  shows "uid_inv P f m' g' \<and> src_inv N G m' S' \<and> m \<subseteq>\<^sub>m m'
     \<and> dom m' = dom m \<union> set (non_null ps)
         \<union> (\<Union>n \<in> set (non_null ps). set (persisted_sources N G n))
     \<and> (\<forall>n \<in> set (non_null ps). persisted_sources N G n \<noteq> [] \<longrightarrow> S' n \<noteq> None)
     \<and> (\<forall>k. S k \<noteq> None \<longrightarrow> S' k \<noteq> None)"
  using assms(3-5)
proof (induction ps arbitrary: m S g)
  case Nil
  then show ?case by simp
next
  case (Cons p ps)
  show ?case
  proof (cases p)
    case None
    then show ?thesis
      using Cons.IH [OF Cons.prems(1,2)] Cons.prems(3) by simp
  next
    case (Some n)
    obtain m1 S1 g1 where s1: "sources_loop N n (GetSources G n) (m, S, g) = (m1, S1, g1)"
      by (cases "sources_loop N n (GetSources G n) (m, S, g)") auto
    obtain m2 g2 where a: "assign_if_empty (m1, g1) n = (m2, g2)"
      by (cases "assign_if_empty (m1, g1) n")
    note L = sources_loop_inv [OF Cons.prems(1) assms(1,2) s1]
    have u1: "uid_inv P f m1 g1" using L by blast
    note A = uid_inv_assign [OF u1 assms(1,2) a]
    have i1: "src_inv N G m1 S1"
      by (rule src_inv_sources_loop [OF Cons.prems(1) assms(1,2) Cons.prems(2) s1])
    have i2: "src_inv N G m2 S1"
      using i1 A(2) by (rule src_inv_mono)
    have rest: "dependencies_loop N G ps (m2, S1, g2) = (m', S', g')"
      using Cons.prems(3) Some by (simp add: dependencies_loop_Some s1 a del: dependencies_loop.simps)
    note IH = Cons.IH [OF A(1) i2 rest]
    have "m \<subseteq>\<^sub>m m'"
      using L A(2) IH by (meson map_le_trans)
    moreover have "dom m' = dom m \<union> set (non_null (p # ps))
         \<union> (\<Union>n \<in> set (non_null (p # ps)). set (persisted_sources N G n))"
      using IH A(3) L Some by (auto simp: persisted_sources_def)
    moreover have S1n: "persisted_sources N G n \<noteq> [] \<longrightarrow> S1 n \<noteq> None"
      using L by (simp add: persisted_sources_def)
    then have "\<forall>k \<in> set (non_null (p # ps)). persisted_sources N G k \<noteq> [] \<longrightarrow> S' k \<noteq> None"
      using IH Some by auto
    moreover have "\<forall>k. S k \<noteq> None \<longrightarrow> S' k \<noteq> None"
    proof (intro allI impI)
      fix k assume "S k \<noteq> None"
      then have "S1 k \<noteq> None"
        using L by (cases "k = n") auto
      then show "S' k \<noteq> None" using IH by blast
    qed
    ultimately show ?thesis
      using IH by blast
  qed
qed


lemma find_dependencies_facts:
  assumes "inj (node_uid_parts env)" "find_dependencies env G N = (m, S, g)"
  shows "dom m = {k. Some k \<in> set N}"
    and "inj_on m {k. Some k \<in> set N}"
    and "issued g = card {k. Some k \<in> set N}"
    and "Some n \<in> set N \<Longrightarrow>
           set (map Some (lookup S n)) = m ` {s \<in> set (GetSources G n). Some s \<in> set N}"
proof -
  have u0: "uid_inv ''OBJECT_'' (node_uid_parts env) Map.empty
      (UIDGenerator_New ''OBJECT_'' (node_uid_parts env))"
    by (simp add: uid_inv_def UIDGenerator_New_def)
  have s0: "src_inv N G Map.empty Map.empty"
    by (simp add: src_inv_def)
  have p: "''OBJECT_'' \<noteq> []" by simp
  note L = dependencies_loop_inv [OF p assms(1) u0 s0 assms(2) [unfolded find_dependencies_def]]
  have F: "set (persisted_sources N G k) \<subseteq> {k. Some k \<in> set N}" for k
    by (auto simp: persisted_sources_def)
  show d: "dom m = {k. Some k \<in> set N}"
    using L F by (auto simp: set_non_null)
  have "uid_inv ''OBJECT_'' (node_uid_parts env) m g"
    using L by blast
  then have u: "inj_on m (dom m)" "card (dom m) = issued g"
    by (simp_all add: uid_inv_def)
  show "inj_on m {k. Some k \<in> set N}"
    using u(1) unfolding d .
  show "issued g = card {k. Some k \<in> set N}"
    using u(2) unfolding d by simp
  show "set (map Some (lookup S n)) = m ` {s \<in> set (GetSources G n). Some s \<in> set N}"
    if n: "Some n \<in> set N"
  proof -
    have Fd: "set (persisted_sources N G n) \<subseteq> dom m"
      using F d by simp
    have img: "Some ` (\<lambda>s. the (m s)) ` set (persisted_sources N G n)
        = m ` set (persisted_sources N G n)"
      using Fd by (force simp: image_image domIff)
    have Fset: "set (persisted_sources N G n) = {s \<in> set (GetSources G n). Some s \<in> set N}"
      by (auto simp: persisted_sources_def)
    show ?thesis
    proof (cases "S n")
      case None
      then have "persisted_sources N G n = []"
        using L n by (auto simp: set_non_null)
      then show ?thesis
        using None Fset by simp
    next
      case (Some l)
      then have "set l = (\<lambda>s. the (m s)) ` set (persisted_sources N G n)"
        using L by (auto simp: src_inv_def)
      then show ?thesis
        using Some img Fset by simp
    qed
  qed
qed

subsection \<open>Saving: a successful save\<close>

lemma write_archive_True:
  assumes "write_archive env this fs document filename = (True, fs')"
  shows "files fs' filename = Some (Archive document)"
    and "dirs fs' = dirs fs - {Poco_File env filename} - {Poco_File env (m_WorkingDirectory this)}"
  using assms
  by (auto simp: write_archive_def Let_def remove_dir_def remove_if_exists_def
      split: if_splits outcome.splits)

lemma SaveScene_True:
  assumes "SaveScene env reg (this, fs) sceneNodes storage filename = (True, this', fs')"
  obtains nodes graph wd fs1 where
    "sceneNodes = Some nodes" "storage = Some graph" "filename \<noteq> []"
    "CreateEmptyTempDirectory env fs = (wd, fs1)" "wd \<noteq> []"
    "this' = snd (write_loop env reg (fst (find_dependencies env graph nodes))
               (fst (snd (find_dependencies env graph nodes))) nodes
               (manifest_header env,
                this\<lparr>m_FailedNodes := Some [], m_FailedProperties := Some PropertyList_New,
                     m_WorkingDirectory := wd\<rparr>))"
    "files fs' filename =
       Some (Archive (fst (write_loop env reg (fst (find_dependencies env graph nodes))
               (fst (snd (find_dependencies env graph nodes))) nodes
               (manifest_header env,
                this\<lparr>m_FailedNodes := Some [], m_FailedProperties := Some PropertyList_New,
                     m_WorkingDirectory := wd\<rparr>))))"
proof -
  from assms obtain nodes where n: "sceneNodes = Some nodes"
    by (cases sceneNodes) (auto simp: SaveScene_def)
  from assms n obtain graph where g: "storage = Some graph"
    by (cases storage) (auto simp: SaveScene_def)
  from assms n g have f: "filename \<noteq> []"
    by (auto simp: SaveScene_def)
  obtain wd fs1 where c: "CreateEmptyTempDirectory env fs = (wd, fs1)"
    by (cases "CreateEmptyTempDirectory env fs")
  from assms n g f c have w: "wd \<noteq> []"
    by (auto simp: SaveScene_def Let_def)
  define this0 where "this0 = this\<lparr>m_FailedNodes := Some [],
     m_FailedProperties := Some PropertyList_New, m_WorkingDirectory := wd\<rparr>"
  define r where "r = write_loop env reg (fst (find_dependencies env graph nodes))
               (fst (snd (find_dependencies env graph nodes))) nodes (manifest_header env, this0)"
  have eq: "SaveScene env reg (this, fs) sceneNodes storage filename =
      (fst (write_archive env (snd r) fs1 (fst r) filename), snd r,
       snd (write_archive env (snd r) fs1 (fst r) filename))"
    using n g f c w
    by (simp add: SaveScene_def Let_def case_prod_unfold r_def this0_def manifest_header_def)
  have "(fst (write_archive env (snd r) fs1 (fst r) filename), snd r,
       snd (write_archive env (snd r) fs1 (fst r) filename)) = (True, this', fs')"
    by (rule assms [unfolded eq])
  then have "fst (write_archive env (snd r) fs1 (fst r) filename) = True"
    and "snd (write_archive env (snd r) fs1 (fst r) filename) = fs'" and "this' = snd r"
    by auto
  then have "write_archive env (snd r) fs1 (fst r) filename = (True, fs')" "this' = snd r"
    by (simp_all only: prod_eq_iff fst_conv snd_conv simp_thms)
  then show ?thesis
    using that [OF n g f c w] write_archive_True(1) unfolding r_def this0_def by blast
qed

subsection \<open>Saving: the manifest\<close>

lemma children_named_simps:
  "children_named v (Element w as cs) = filter (\<lambda>c. Value c = v) cs"
  by (simp add: children_named_def)

lemma filter_Value_properties:
  assumes "\<forall>p \<in> set props. Value p = ''properties''" "v \<noteq> ''properties''"
  shows "filter (\<lambda>c. Value c = v) props = []"
  using assms by (auto simp: filter_empty_conv)

lemma filter_Value_sources:
  "v \<noteq> ''source'' \<Longrightarrow> filter (\<lambda>c. Value c = v) (map source_element l) = []"
  "filter (\<lambda>c. Value c = ''source'') (map source_element l) = map source_element l"
  by (induction l) (simp_all add: source_element_def)

lemma entry_facts:
  assumes e: "e = fst (write_node env reg m S n that)"
  shows "Value e = ''node''"
    and "own_uid e = m n"
    and "dependency_uids e = map Some (lookup S n)"
    and "case Data (node_at reg n) of
           None \<Rightarrow> children_named ''data'' e = []
         | Some d \<Rightarrow>
             (\<exists>p. children_named ''data'' e = [p] \<and> Attribute p ''type'' = Some (NameOfClass d)
                \<and> Attribute p ''file''
                    = written_file reg (m_WorkingDirectory that) d
                        (MakeCindentifier env (Name (node_at reg n))))"
proof -
  obtain dataprops props where
    shape: "e = Element ''node'' (case m n of Some u \<Rightarrow> [(''UID'', u)] | None \<Rightarrow> [])
         (map source_element (lookup S n)
          @ (case Data (node_at reg n) of
               None \<Rightarrow> []
             | Some d \<Rightarrow>
                 [Element ''data''
                    ((''type'', NameOfClass d) #
                     (case written_file reg (m_WorkingDirectory that) d
                             (MakeCindentifier env (Name (node_at reg n))) of
                        None \<Rightarrow> []
                      | Some f \<Rightarrow> [(''file'', f)]))
                    dataprops])
          @ props)"
    and props: "\<forall>p \<in> set props. Value p = ''properties''"
    using write_node_shape [of env reg m S n that] unfolding e by blast
  have ps: "filter (\<lambda>c. Value c = ''source'') props = []"
      and pd: "filter (\<lambda>c. Value c = ''data'') props = []"
    using props by (simp_all add: filter_Value_properties)
  show "Value e = ''node''"
    by (simp add: shape)
  show "own_uid e = m n"
    by (simp add: shape own_uid_def split: option.splits)
  show "dependency_uids e = map Some (lookup S n)"
    by (simp add: shape dependency_uids_def children_named_simps filter_Value_sources ps
        source_element_def comp_def split: option.splits)
  show "case Data (node_at reg n) of
           None \<Rightarrow> children_named ''data'' e = []
         | Some d \<Rightarrow>
             (\<exists>p. children_named ''data'' e = [p] \<and> Attribute p ''type'' = Some (NameOfClass d)
                \<and> Attribute p ''file''
                    = written_file reg (m_WorkingDirectory that) d
                        (MakeCindentifier env (Name (node_at reg n))))"
    by (simp add: shape children_named_simps filter_Value_sources pd split: option.splits)
qed


lemma SaveScene_manifest:
  assumes "SaveScene env reg (this, fs) (Some nodes) (Some graph) filename = (True, this', fs')"
  obtains entries where
    "files fs' filename = Some (Archive (manifest_header env @ entries))"
    "list_all2
       (\<lambda>n e. \<exists>that. m_WorkingDirectory that = m_WorkingDirectory this'
          \<and> e = fst (write_node env reg (fst (find_dependencies env graph nodes))
                  (fst (snd (find_dependencies env graph nodes))) n that))
       (non_null nodes) entries"
    "m_FailedNodes this' =
       Some (filter (payload_fails env reg (m_WorkingDirectory this')) (non_null nodes))"
proof -
  from assms obtain wd fs1 where
    this': "this' = snd (write_loop env reg (fst (find_dependencies env graph nodes))
               (fst (snd (find_dependencies env graph nodes))) nodes
               (manifest_header env,
                this\<lparr>m_FailedNodes := Some [], m_FailedProperties := Some PropertyList_New,
                     m_WorkingDirectory := wd\<rparr>))"
    and files: "files fs' filename =
       Some (Archive (fst (write_loop env reg (fst (find_dependencies env graph nodes))
               (fst (snd (find_dependencies env graph nodes))) nodes
               (manifest_header env,
                this\<lparr>m_FailedNodes := Some [], m_FailedProperties := Some PropertyList_New,
                     m_WorkingDirectory := wd\<rparr>))))"
    by (rule SaveScene_True) auto
  define this0 where "this0 = this\<lparr>m_FailedNodes := Some [],
     m_FailedProperties := Some PropertyList_New, m_WorkingDirectory := wd\<rparr>"
  note M = write_loop_members [of env reg "fst (find_dependencies env graph nodes)"
      "fst (snd (find_dependencies env graph nodes))" nodes "manifest_header env" this0]
  have wd: "m_WorkingDirectory this' = m_WorkingDirectory this0"
    using M unfolding this' this0_def by blast
  have failed: "m_FailedNodes this' =
       Some (filter (payload_fails env reg (m_WorkingDirectory this')) (non_null nodes))"
    using M unfolding wd unfolding this' this0_def by simp
  obtain entries where
    "fst (write_loop env reg (fst (find_dependencies env graph nodes))
               (fst (snd (find_dependencies env graph nodes))) nodes
               (manifest_header env, this0)) = manifest_header env @ entries"
    "list_all2
       (\<lambda>n e. \<exists>that. m_WorkingDirectory that = m_WorkingDirectory this0
          \<and> e = fst (write_node env reg (fst (find_dependencies env graph nodes))
                  (fst (snd (find_dependencies env graph nodes))) n that))
       (non_null nodes) entries"
    using write_loop_entries by blast
  then show ?thesis
    using that [of entries] files failed unfolding wd this0_def by simp
qed

lemma serializer_outcome_cases:
  "(case L of
      BaseDataSerializer Serialize # rest \<Rightarrow>
        (case Serialize d hint wd of
           Returns written \<Rightarrow> A = Some written \<and> \<not> F
         | Raises \<Rightarrow> A = None \<and> F)
    | _ \<Rightarrow> A = None \<and> F)
   \<longleftrightarrow>
     A = (case L of
            BaseDataSerializer Serialize # rest \<Rightarrow>
              (case Serialize d hint wd of Returns written \<Rightarrow> Some written | Raises \<Rightarrow> None)
          | _ \<Rightarrow> None)
     \<and> (F \<longleftrightarrow>
          (case L of
             BaseDataSerializer Serialize # rest \<Rightarrow>
               (case Serialize d hint wd of Returns written \<Rightarrow> Some written | Raises \<Rightarrow> None)
           | _ \<Rightarrow> None) = None)"
  by (simp split: list.split candidate.split outcome.split)

text \<open>
  Claim C3, as the code has it. In the manifest of a save that succeeds, the record of a
  node without payload has no \<^verbatim>\<open>data\<close> element, and the record of a node with a
  payload has exactly one, whether or not the payload could be serialized: the element
  always carries the attribute \<^verbatim>\<open>type\<close> with the payload's class name. What depends
  on the serializer is the attribute \<^verbatim>\<open>file\<close> and the failed-node list: when the
  first candidate of the factory that is a serializer returns a file name, the element
  carries it as \<^verbatim>\<open>file\<close> and the node is not in the list; when that candidate raises,
  or when the factory has no serializer, the element has no \<^verbatim>\<open>file\<close> and the node is
  in the list. The list holds nodes of the node set only, in their order.
\<close>

theorem payload_element_always_written:
  assumes "SaveScene env reg (this, fs) (Some nodes) (Some graph) filename = (True, this', fs')"
  shows "\<exists>entries failed.
     files fs' filename = Some (Archive (manifest_header env @ entries))
     \<and> m_FailedNodes this' = Some failed
     \<and> failed = filter (\<lambda>n. n \<in> set failed) (non_null nodes)
     \<and> list_all2
          (\<lambda>n e. case Data (node_at reg n) of
                    None \<Rightarrow> children_named ''data'' e = [] \<and> n \<notin> set failed
                  | Some d \<Rightarrow>
                      (\<exists>p. children_named ''data'' e = [p]
                         \<and> Attribute p ''type'' = Some (NameOfClass d)
                         \<and> (case dropWhile (\<lambda>c. c = NotASerializer)
                                   (CreateAllInstance reg (NameOfClass d @ ''Serializer'')) of
                              BaseDataSerializer Serialize # rest \<Rightarrow>
                                (case Serialize d (MakeCindentifier env (Name (node_at reg n)))
                                        (m_WorkingDirectory this') of
                                   Returns written \<Rightarrow>
                                     Attribute p ''file'' = Some written \<and> n \<notin> set failed
                                 | Raises \<Rightarrow>
                                     Attribute p ''file'' = None \<and> n \<in> set failed)
                            | _ \<Rightarrow> Attribute p ''file'' = None \<and> n \<in> set failed)))
          (non_null nodes) entries"
proof -
  from assms obtain entries where
    E: "files fs' filename = Some (Archive (manifest_header env @ entries))"
    "list_all2
       (\<lambda>n e. \<exists>that. m_WorkingDirectory that = m_WorkingDirectory this'
          \<and> e = fst (write_node env reg (fst (find_dependencies env graph nodes))
                  (fst (snd (find_dependencies env graph nodes))) n that))
       (non_null nodes) entries"
    "m_FailedNodes this' =
       Some (filter (payload_fails env reg (m_WorkingDirectory this')) (non_null nodes))"
    by (rule SaveScene_manifest)
  define failed where
    "failed = filter (payload_fails env reg (m_WorkingDirectory this')) (non_null nodes)"
  have member: "n \<in> set failed \<longleftrightarrow> payload_fails env reg (m_WorkingDirectory this') n"
    if "n \<in> set (non_null nodes)" for n
    using that by (simp add: failed_def)
  have ordered: "failed = filter (\<lambda>n. n \<in> set failed) (non_null nodes)"
    unfolding failed_def by (rule filter_cong) auto
  have "list_all2
          (\<lambda>n e. case Data (node_at reg n) of
                    None \<Rightarrow> children_named ''data'' e = [] \<and> n \<notin> set failed
                  | Some d \<Rightarrow>
                      (\<exists>p. children_named ''data'' e = [p]
                         \<and> Attribute p ''type'' = Some (NameOfClass d)
                         \<and> (case dropWhile (\<lambda>c. c = NotASerializer)
                                   (CreateAllInstance reg (NameOfClass d @ ''Serializer'')) of
                              BaseDataSerializer Serialize # rest \<Rightarrow>
                                (case Serialize d (MakeCindentifier env (Name (node_at reg n)))
                                        (m_WorkingDirectory this') of
                                   Returns written \<Rightarrow>
                                     Attribute p ''file'' = Some written \<and> n \<notin> set failed
                                 | Raises \<Rightarrow>
                                     Attribute p ''file'' = None \<and> n \<in> set failed)
                            | _ \<Rightarrow> Attribute p ''file'' = None \<and> n \<in> set failed)))
          (non_null nodes) entries"
    using E(2)
  proof (rule list.rel_mono_strong)
    fix n e
    assume n: "n \<in> set (non_null nodes)"
    assume "\<exists>that. m_WorkingDirectory that = m_WorkingDirectory this'
          \<and> e = fst (write_node env reg (fst (find_dependencies env graph nodes))
                  (fst (snd (find_dependencies env graph nodes))) n that)"
    then obtain that where w: "m_WorkingDirectory that = m_WorkingDirectory this'"
      and e: "e = fst (write_node env reg (fst (find_dependencies env graph nodes))
                  (fst (snd (find_dependencies env graph nodes))) n that)"
      by blast
    note data = entry_facts(4) [OF e, unfolded w]
    note fails = member [OF n, unfolded payload_fails_written_file]
    show "case Data (node_at reg n) of
                    None \<Rightarrow> children_named ''data'' e = [] \<and> n \<notin> set failed
                  | Some d \<Rightarrow>
                      (\<exists>p. children_named ''data'' e = [p]
                         \<and> Attribute p ''type'' = Some (NameOfClass d)
                         \<and> (case dropWhile (\<lambda>c. c = NotASerializer)
                                   (CreateAllInstance reg (NameOfClass d @ ''Serializer'')) of
                              BaseDataSerializer Serialize # rest \<Rightarrow>
                                (case Serialize d (MakeCindentifier env (Name (node_at reg n)))
                                        (m_WorkingDirectory this') of
                                   Returns written \<Rightarrow>
                                     Attribute p ''file'' = Some written \<and> n \<notin> set failed
                                 | Raises \<Rightarrow>
                                     Attribute p ''file'' = None \<and> n \<in> set failed)
                            | _ \<Rightarrow> Attribute p ''file'' = None \<and> n \<in> set failed))"
    proof (cases "Data (node_at reg n)")
      case None
      then show ?thesis using data fails by simp
    next
      case (Some d)
      from data Some obtain p where p: "children_named ''data'' e = [p]"
        "Attribute p ''type'' = Some (NameOfClass d)"
        "Attribute p ''file'' = written_file reg (m_WorkingDirectory this') d
           (MakeCindentifier env (Name (node_at reg n)))"
        by auto
      from fails Some have failed: "n \<in> set failed \<longleftrightarrow>
          written_file reg (m_WorkingDirectory this') d
            (MakeCindentifier env (Name (node_at reg n))) = None"
        by simp
      have "case dropWhile (\<lambda>c. c = NotASerializer)
                   (CreateAllInstance reg (NameOfClass d @ ''Serializer'')) of
              BaseDataSerializer Serialize # rest \<Rightarrow>
                (case Serialize d (MakeCindentifier env (Name (node_at reg n)))
                        (m_WorkingDirectory this') of
                   Returns written \<Rightarrow> Attribute p ''file'' = Some written \<and> n \<notin> set failed
                 | Raises \<Rightarrow> Attribute p ''file'' = None \<and> n \<in> set failed)
            | _ \<Rightarrow> Attribute p ''file'' = None \<and> n \<in> set failed"
        using p(3) [unfolded written_file_def] failed [unfolded written_file_def]
        by (intro iffD2 [OF serializer_outcome_cases
              [where L = "dropWhile (\<lambda>c. c = NotASerializer)
                   (CreateAllInstance reg (NameOfClass d @ ''Serializer''))"
                 and A = "Attribute p ''file''" and F = "n \<in> set failed"]] conjI)
      with p(1,2) show ?thesis
        using Some by simp
    qed
  qed
  moreover have "m_FailedNodes this' = Some failed"
    using E(3) by (simp only: failed_def)
  ultimately show ?thesis
    using E(1) ordered by (intro exI [of _ entries] exI [of _ failed] conjI)
qed

lemma example_save_succeeds:
  "fst (SaveScene example_platform example_registry (SceneIO_New, empty_filesystem)
          (Some [Some 0, None, Some 1, Some 2]) (Some example_storage) ''/out/scene.mitk'')
     = True"
  by code_simp

lemma example_save:
  "SaveScene example_platform example_registry (SceneIO_New, empty_filesystem)
          (Some [Some 0, None, Some 1, Some 2]) (Some example_storage) ''/out/scene.mitk''
     = (True,
        fst (snd (SaveScene example_platform example_registry (SceneIO_New, empty_filesystem)
          (Some [Some 0, None, Some 1, Some 2]) (Some example_storage) ''/out/scene.mitk'')),
        snd (snd (SaveScene example_platform example_registry (SceneIO_New, empty_filesystem)
          (Some [Some 0, None, Some 1, Some 2]) (Some example_storage) ''/out/scene.mitk'')))"
  using example_save_succeeds by (simp add: prod_eq_iff)

theorem payload_element_always_written_witness:
  "\<exists>entries failed.
     files (snd (snd (SaveScene example_platform example_registry (SceneIO_New, empty_filesystem)
          (Some [Some 0, None, Some 1, Some 2]) (Some example_storage) ''/out/scene.mitk'')))
       ''/out/scene.mitk'' = Some (Archive (manifest_header example_platform @ entries))
     \<and> m_FailedNodes (fst (snd (SaveScene example_platform example_registry
          (SceneIO_New, empty_filesystem) (Some [Some 0, None, Some 1, Some 2])
          (Some example_storage) ''/out/scene.mitk''))) = Some failed
     \<and> failed = filter (\<lambda>n. n \<in> set failed) (non_null [Some 0, None, Some 1, Some 2])
     \<and> list_all2
          (\<lambda>n e. case Data (node_at example_registry n) of
                    None \<Rightarrow> children_named ''data'' e = [] \<and> n \<notin> set failed
                  | Some d \<Rightarrow>
                      (\<exists>p. children_named ''data'' e = [p]
                         \<and> Attribute p ''type'' = Some (NameOfClass d)
                         \<and> (case dropWhile (\<lambda>c. c = NotASerializer)
                                   (CreateAllInstance example_registry
                                      (NameOfClass d @ ''Serializer'')) of
                              BaseDataSerializer Serialize # rest \<Rightarrow>
                                (case Serialize d
                                        (MakeCindentifier example_platform
                                           (Name (node_at example_registry n)))
                                        (m_WorkingDirectory (fst (snd (SaveScene example_platform
                                           example_registry (SceneIO_New, empty_filesystem)
                                           (Some [Some 0, None, Some 1, Some 2])
                                           (Some example_storage) ''/out/scene.mitk'')))) of
                                   Returns written \<Rightarrow>
                                     Attribute p ''file'' = Some written \<and> n \<notin> set failed
                                 | Raises \<Rightarrow>
                                     Attribute p ''file'' = None \<and> n \<in> set failed)
                            | _ \<Rightarrow> Attribute p ''file'' = None \<and> n \<in> set failed)))
          (non_null [Some 0, None, Some 1, Some 2]) entries"
  by (rule payload_element_always_written [OF example_save])

text \<open>
  Claim C3, as stated, fails: saving node 1 alone, whose serializer raises, succeeds,
  records node 1 as failed, and writes a manifest whose record for node 1 contains a
  \<^verbatim>\<open>data\<close> element with the type name (and no file reference).
\<close>

theorem failed_payload_keeps_its_element:
  "fst (SaveScene example_platform example_registry (SceneIO_New, empty_filesystem)
          (Some [Some 1]) (Some example_storage) ''/out/scene.mitk'') = True
   \<and> m_FailedNodes (fst (snd (SaveScene example_platform example_registry
          (SceneIO_New, empty_filesystem) (Some [Some 1]) (Some example_storage)
          ''/out/scene.mitk''))) = Some [1]
   \<and> files (snd (snd (SaveScene example_platform example_registry
          (SceneIO_New, empty_filesystem) (Some [Some 1]) (Some example_storage)
          ''/out/scene.mitk''))) ''/out/scene.mitk''
      = Some (Archive
          [Declaration ''1.0'' ''UTF-8'' [],
           Element ''Version''
             [(''Writer'', ''mitkSceneIO.cpp''), (''Revision'', ''$Revision: 17055 $''),
              (''FileVersion'', ''1'')] [],
           Element ''node'' [(''UID'', ''OBJECT_x'')]
             [Element ''data'' [(''type'', ''Surface'')] []]])"
  by code_simp


lemma list_all2_map_eq: "list_all2 (\<lambda>x y. f y = g x) xs ys \<Longrightarrow> map f ys = map g xs"
  by (induction rule: list_all2_induct) simp_all

lemma list_all2_setD2: "list_all2 P xs ys \<Longrightarrow> y \<in> set ys \<Longrightarrow> \<exists>x\<in>set xs. P x y"
  by (induction rule: list_all2_induct) auto

lemma SaveScene_entries:
  assumes "SaveScene env reg (this, fs) (Some nodes) (Some graph) filename = (True, this', fs')"
    and "inj (node_uid_parts env)"
  obtains entries where
    "files fs' filename = Some (Archive (manifest_header env @ entries))"
    "list_all2
       (\<lambda>n e. Value e = ''node''
          \<and> own_uid e = fst (find_dependencies env graph nodes) n
          \<and> set (dependency_uids e) =
              fst (find_dependencies env graph nodes)
                ` {s \<in> set (GetSources graph n). Some s \<in> set nodes})
       (non_null nodes) entries"
proof -
  obtain m S g where fd: "find_dependencies env graph nodes = (m, S, g)"
    by (cases "find_dependencies env graph nodes") auto
  note F = find_dependencies_facts [OF assms(2) fd]
  from assms(1) obtain entries where
    E: "files fs' filename = Some (Archive (manifest_header env @ entries))"
    "list_all2
       (\<lambda>n e. \<exists>that. m_WorkingDirectory that = m_WorkingDirectory this'
          \<and> e = fst (write_node env reg m S n that))
       (non_null nodes) entries"
    using SaveScene_manifest [OF assms(1)] unfolding fd by auto
  have "list_all2
       (\<lambda>n e. Value e = ''node'' \<and> own_uid e = m n
          \<and> set (dependency_uids e) = m ` {s \<in> set (GetSources graph n). Some s \<in> set nodes})
       (non_null nodes) entries"
    using E(2)
  proof (rule list.rel_mono_strong)
    fix n e
    assume n: "n \<in> set (non_null nodes)"
      and "\<exists>that. m_WorkingDirectory that = m_WorkingDirectory this'
          \<and> e = fst (write_node env reg m S n that)"
    then obtain that where e: "e = fst (write_node env reg m S n that)"
      by blast
    have "Some n \<in> set nodes"
      using n by (simp add: set_non_null)
    from F(4) [OF this] entry_facts(1-3) [OF e]
    show "Value e = ''node'' \<and> own_uid e = m n
          \<and> set (dependency_uids e) = m ` {s \<in> set (GetSources graph n). Some s \<in> set nodes}"
      by simp
  qed
  then show ?thesis
    using that [of entries] E(1) unfolding fd by simp
qed

text \<open>
  Claim C6. In the manifest of a save that succeeds (with a generator whose parts differ
  from call to call), the record of each node of the set carries the node's identifier,
  and the identifiers it lists as dependencies are exactly the identifiers of those
  direct sources of the node that are in the node set. Every node of the set has an
  identifier and different nodes have different ones, so a listed identifier stands for
  exactly one source in the set, a source outside the set is not listed in any form, and
  a node none of whose sources is in the set lists nothing.
\<close>

theorem dependencies_within_node_set:
  assumes "SaveScene env reg (this, fs) (Some nodes) (Some graph) filename = (True, this', fs')"
    and "inj (node_uid_parts env)"
  shows "\<exists>entries.
     files fs' filename = Some (Archive (manifest_header env @ entries))
     \<and> list_all2
          (\<lambda>n e. own_uid e = fst (find_dependencies env graph nodes) n
             \<and> set (dependency_uids e) =
                 fst (find_dependencies env graph nodes)
                   ` {s \<in> set (GetSources graph n). Some s \<in> set nodes})
          (non_null nodes) entries
     \<and> dom (fst (find_dependencies env graph nodes)) = {k. Some k \<in> set nodes}
     \<and> inj_on (fst (find_dependencies env graph nodes)) {k. Some k \<in> set nodes}"
proof -
  obtain m S g where fd: "find_dependencies env graph nodes = (m, S, g)"
    by (cases "find_dependencies env graph nodes") auto
  note F = find_dependencies_facts [OF assms(2) fd]
  obtain entries where
    E: "files fs' filename = Some (Archive (manifest_header env @ entries))"
    "list_all2
       (\<lambda>n e. Value e = ''node''
          \<and> own_uid e = fst (find_dependencies env graph nodes) n
          \<and> set (dependency_uids e) =
              fst (find_dependencies env graph nodes)
                ` {s \<in> set (GetSources graph n). Some s \<in> set nodes})
       (non_null nodes) entries"
    using SaveScene_entries [OF assms] by blast
  have "list_all2
          (\<lambda>n e. own_uid e = fst (find_dependencies env graph nodes) n
             \<and> set (dependency_uids e) =
                 fst (find_dependencies env graph nodes)
                   ` {s \<in> set (GetSources graph n). Some s \<in> set nodes})
          (non_null nodes) entries"
    using E(2) by (rule list_all2_mono) simp
  then show ?thesis
    using E(1) F(1,2) unfolding fd by auto
qed

text \<open>
  Claim C5. In a save that succeeds (with a generator whose parts differ from call to
  call), the generator is asked for exactly as many identifiers as there are different
  nodes in the set, so no node is given an identifier twice; the records of the manifest
  carry the identifiers of the nodes, in order, every record has one, there are as many
  different ones as there are different nodes (all records differ when all nodes do), and
  every identifier listed as a dependency is the identifier of some record of the same
  manifest.
\<close>

theorem identifiers_unique_and_resolved:
  assumes "SaveScene env reg (this, fs) (Some nodes) (Some graph) filename = (True, this', fs')"
    and "inj (node_uid_parts env)"
  shows "\<exists>entries.
     files fs' filename = Some (Archive (manifest_header env @ entries))
     \<and> map own_uid entries = map (fst (find_dependencies env graph nodes)) (non_null nodes)
     \<and> None \<notin> set (map own_uid entries)
     \<and> card (set (map own_uid entries)) = card (set (non_null nodes))
     \<and> issued (snd (snd (find_dependencies env graph nodes))) = card (set (non_null nodes))
     \<and> distinct (map own_uid entries) = distinct (non_null nodes)
     \<and> (\<forall>e \<in> set entries. set (dependency_uids e) \<subseteq> set (map own_uid entries))"
proof -
  obtain m S g where fd: "find_dependencies env graph nodes = (m, S, g)"
    by (cases "find_dependencies env graph nodes") auto
  note F = find_dependencies_facts [OF assms(2) fd]
  have ns: "{k. Some k \<in> set nodes} = set (non_null nodes)"
    by (simp add: set_non_null)
  obtain entries where
    E: "files fs' filename = Some (Archive (manifest_header env @ entries))"
    "list_all2
       (\<lambda>n e. Value e = ''node'' \<and> own_uid e = m n
          \<and> set (dependency_uids e) = m ` {s \<in> set (GetSources graph n). Some s \<in> set nodes})
       (non_null nodes) entries"
    using SaveScene_entries [OF assms] unfolding fd by auto
  have "list_all2 (\<lambda>n e. own_uid e = m n) (non_null nodes) entries"
    using E(2) by (rule list_all2_mono) simp
  then have uids: "map own_uid entries = map m (non_null nodes)"
    by (rule list_all2_map_eq)
  have inj: "inj_on m (set (non_null nodes))"
    using F(2) unfolding ns .
  have none: "None \<notin> set (map own_uid entries)"
  proof
    assume "None \<in> set (map own_uid entries)"
    then obtain k where "k \<in> set (non_null nodes)" "m k = None"
      unfolding uids by auto
    then show False
      using F(1) unfolding ns by (auto simp: domIff)
  qed
  have card: "card (set (map own_uid entries)) = card (set (non_null nodes))"
    unfolding uids using inj by (simp add: card_image)
  have dist: "distinct (map own_uid entries) = distinct (non_null nodes)"
    unfolding uids using inj by (simp add: distinct_map)
  have deps: "\<forall>e \<in> set entries. set (dependency_uids e) \<subseteq> set (map own_uid entries)"
  proof
    fix e assume "e \<in> set entries"
    from list_all2_setD2 [OF E(2) this] obtain n where
      "set (dependency_uids e) = m ` {s \<in> set (GetSources graph n). Some s \<in> set nodes}"
      by blast
    then show "set (dependency_uids e) \<subseteq> set (map own_uid entries)"
      unfolding uids by (auto simp: set_non_null)
  qed
  have iss: "issued (snd (snd (find_dependencies env graph nodes))) = card (set (non_null nodes))"
    using F(3) unfolding fd ns by simp
  have uids': "map own_uid entries = map (fst (find_dependencies env graph nodes)) (non_null nodes)"
    using uids unfolding fd by simp
  show ?thesis
    by (intro exI [of _ entries] conjI E(1) uids' none card iss dist deps)
qed

subsection \<open>Saving: identifiers, failures and null entries\<close>

lemma example_parts_inj: "inj (node_uid_parts example_platform)"
proof (rule injI)
  fix a b
  assume "node_uid_parts example_platform a = node_uid_parts example_platform b"
  then have "length (replicate (Suc a) CHR ''x'') = length (replicate (Suc b) CHR ''x'')"
    by (simp add: example_platform_def)
  then show "a = b" by simp
qed

theorem dependencies_within_node_set_witness:
  "(\<exists>entries.
     files (snd (snd (SaveScene example_platform example_registry (SceneIO_New, empty_filesystem)
          (Some [Some 0, None, Some 1, Some 2]) (Some example_storage) ''/out/scene.mitk'')))
       ''/out/scene.mitk'' = Some (Archive (manifest_header example_platform @ entries))
     \<and> list_all2
          (\<lambda>n e. own_uid e
               = fst (find_dependencies example_platform example_storage
                   [Some 0, None, Some 1, Some 2]) n
             \<and> set (dependency_uids e) =
                 fst (find_dependencies example_platform example_storage
                   [Some 0, None, Some 1, Some 2])
                   ` {s \<in> set (GetSources example_storage n).
                       Some s \<in> set [Some 0, None, Some 1, Some 2]})
          (non_null [Some 0, None, Some 1, Some 2]) entries
     \<and> dom (fst (find_dependencies example_platform example_storage
           [Some 0, None, Some 1, Some 2])) = {k. Some k \<in> set [Some 0, None, Some 1, Some 2]}
     \<and> inj_on (fst (find_dependencies example_platform example_storage
           [Some 0, None, Some 1, Some 2])) {k. Some k \<in> set [Some 0, None, Some 1, Some 2]})
   \<and> (case files (snd (snd (SaveScene example_platform example_registry
          (SceneIO_New, empty_filesystem) (Some [Some 0, None, Some 1, Some 2])
          (Some example_storage) ''/out/scene.mitk''))) ''/out/scene.mitk'' of
         Some (Archive document) \<Rightarrow>
           map (\<lambda>e. (own_uid e, dependency_uids e)) (node_elements document)
       | _ \<Rightarrow> [])
      = [(Some ''OBJECT_x'', []), (Some ''OBJECT_xx'', [Some ''OBJECT_x'']),
         (Some ''OBJECT_xxx'', [])]"
proof
  show "\<exists>entries.
     files (snd (snd (SaveScene example_platform example_registry (SceneIO_New, empty_filesystem)
          (Some [Some 0, None, Some 1, Some 2]) (Some example_storage) ''/out/scene.mitk'')))
       ''/out/scene.mitk'' = Some (Archive (manifest_header example_platform @ entries))
     \<and> list_all2
          (\<lambda>n e. own_uid e
               = fst (find_dependencies example_platform example_storage
                   [Some 0, None, Some 1, Some 2]) n
             \<and> set (dependency_uids e) =
                 fst (find_dependencies example_platform example_storage
                   [Some 0, None, Some 1, Some 2])
                   ` {s \<in> set (GetSources example_storage n).
                       Some s \<in> set [Some 0, None, Some 1, Some 2]})
          (non_null [Some 0, None, Some 1, Some 2]) entries
     \<and> dom (fst (find_dependencies example_platform example_storage
           [Some 0, None, Some 1, Some 2])) = {k. Some k \<in> set [Some 0, None, Some 1, Some 2]}
     \<and> inj_on (fst (find_dependencies example_platform example_storage
           [Some 0, None, Some 1, Some 2])) {k. Some k \<in> set [Some 0, None, Some 1, Some 2]}"
    by (rule dependencies_within_node_set [OF example_save example_parts_inj])
  show "(case files (snd (snd (SaveScene example_platform example_registry
          (SceneIO_New, empty_filesystem) (Some [Some 0, None, Some 1, Some 2])
          (Some example_storage) ''/out/scene.mitk''))) ''/out/scene.mitk'' of
         Some (Archive document) \<Rightarrow>
           map (\<lambda>e. (own_uid e, dependency_uids e)) (node_elements document)
       | _ \<Rightarrow> [])
      = [(Some ''OBJECT_x'', []), (Some ''OBJECT_xx'', [Some ''OBJECT_x'']),
         (Some ''OBJECT_xxx'', [])]"
    by code_simp
qed

theorem identifiers_unique_and_resolved_witness:
  "\<exists>entries.
     files (snd (snd (SaveScene example_platform example_registry (SceneIO_New, empty_filesystem)
          (Some [Some 0, None, Some 1, Some 2]) (Some example_storage) ''/out/scene.mitk'')))
       ''/out/scene.mitk'' = Some (Archive (manifest_header example_platform @ entries))
     \<and> map own_uid entries
         = map (fst (find_dependencies example_platform example_storage
             [Some 0, None, Some 1, Some 2])) (non_null [Some 0, None, Some 1, Some 2])
     \<and> None \<notin> set (map own_uid entries)
     \<and> card (set (map own_uid entries)) = card (set (non_null [Some 0, None, Some 1, Some 2]))
     \<and> issued (snd (snd (find_dependencies example_platform example_storage
           [Some 0, None, Some 1, Some 2])))
         = card (set (non_null [Some 0, None, Some 1, Some 2]))
     \<and> distinct (map own_uid entries) = distinct (non_null [Some 0, None, Some 1, Some 2])
     \<and> (\<forall>e \<in> set entries. set (dependency_uids e) \<subseteq> set (map own_uid entries))"
  by (rule identifiers_unique_and_resolved [OF example_save example_parts_inj])


lemma createDirectory_Returns:
  "\<forall>p. \<not> mkdir_raises env p \<Longrightarrow>
     createDirectory env fs p = Returns (p \<notin> dirs fs, fs\<lparr>dirs := insert p (dirs fs)\<rparr>)"
  by (auto simp: createDirectory_def insert_absorb)

lemma CreateEmptyTempDirectory_nonempty:
  assumes "\<forall>p. \<not> mkdir_raises env p"
  shows "fst (CreateEmptyTempDirectory env fs) \<noteq> []"
  by (simp add: CreateEmptyTempDirectory_def Let_def case_prod_unfold GetUID_def
      createDirectory_Returns [OF assms])

lemma write_archive_succeeds:
  assumes "\<forall>p. SaveFile_ok env p" "\<forall>p. \<not> remove_raises env p" "ofstream_good env filename"
    "\<forall>p. \<not> zip_raises env p"
  shows "fst (write_archive env this fs document filename) = True"
  using assms by (simp add: write_archive_def Let_def remove_if_exists_def remove_dir_def)

lemma SaveScene_succeeds:
  assumes "\<forall>p. \<not> mkdir_raises env p" "\<forall>p. SaveFile_ok env p" "\<forall>p. \<not> remove_raises env p"
    "ofstream_good env filename" "\<forall>p. \<not> zip_raises env p" "filename \<noteq> []"
  shows "fst (SaveScene env reg (this, fs) (Some nodes) (Some graph) filename) = True"
  using assms(6) CreateEmptyTempDirectory_nonempty [OF assms(1), of fs]
  by (simp add: SaveScene_def Let_def case_prod_unfold write_archive_succeeds [OF assms(2-5)])

lemma serializer_loop_dropWhile:
  "serializer_loop wd d hint cands element =
     serializer_loop wd d hint (dropWhile (\<lambda>c. c = NotASerializer) cands) element"
proof (induction cands)
  case Nil
  then show ?case by simp
next
  case (Cons c cands)
  then show ?case by (cases c) simp_all
qed

lemma payload_fails_Raises:
  assumes "Data (node_at reg n) = Some d"
    and "dropWhile (\<lambda>c. c = NotASerializer) (CreateAllInstance reg (NameOfClass d @ ''Serializer''))
           = BaseDataSerializer Serialize # rest"
    and "\<forall>hint wd. Serialize d hint wd = Raises"
  shows "payload_fails env reg wd n"
  using assms
  by (simp add: payload_fails_def SaveBaseData_def Let_def
      serializer_loop_dropWhile [of _ _ _ "CreateAllInstance reg (NameOfClass d @ ''Serializer'')"])

text \<open>
  Claim C2. Let the file system cooperate (directories can be created, the manifest and
  the destination can be written, packing and removing do not raise) and let exactly one
  node \<open>n\<close> of the set have a payload whose serializer (the first candidate that is a
  serializer) raises, the payload of every other node being saved without error. Then
  \<^verbatim>\<open>SaveScene\<close> returns true, the manifest in the archive has one \<^verbatim>\<open>node\<close> record
  for every node of the set that is not null, in order and each with its node's
  identifier (so one for every other node, and one for \<open>n\<close> too), and the failed-node
  list holds \<open>n\<close> and nothing else.
\<close>

theorem one_failing_serializer:
  assumes "\<forall>p. \<not> mkdir_raises env p" "\<forall>p. SaveFile_ok env p" "\<forall>p. \<not> remove_raises env p"
    "ofstream_good env filename" "\<forall>p. \<not> zip_raises env p" "filename \<noteq> []"
    and "Some n \<in> set nodes" "Data (node_at reg n) = Some d"
    and "dropWhile (\<lambda>c. c = NotASerializer) (CreateAllInstance reg (NameOfClass d @ ''Serializer''))
           = BaseDataSerializer Serialize # rest"
    and "\<forall>hint wd. Serialize d hint wd = Raises"
    and "\<forall>k wd. Some k \<in> set nodes \<and> k \<noteq> n \<longrightarrow> \<not> payload_fails env reg wd k"
  shows "\<exists>this' fs' entries failed.
     SaveScene env reg (this, fs) (Some nodes) (Some graph) filename = (True, this', fs')
     \<and> files fs' filename = Some (Archive (manifest_header env @ entries))
     \<and> list_all2
          (\<lambda>k e. Value e = ''node'' \<and> own_uid e = fst (find_dependencies env graph nodes) k)
          (non_null nodes) entries
     \<and> m_FailedNodes this' = Some failed \<and> set failed = {n}"
proof -
  obtain this' fs' where
    S: "SaveScene env reg (this, fs) (Some nodes) (Some graph) filename = (True, this', fs')"
    using SaveScene_succeeds [OF assms(1-6), of reg this fs nodes graph]
    by (metis prod.collapse)
  from SaveScene_manifest [OF S] obtain entries where
    E: "files fs' filename = Some (Archive (manifest_header env @ entries))"
    "list_all2
       (\<lambda>n e. \<exists>that. m_WorkingDirectory that = m_WorkingDirectory this'
          \<and> e = fst (write_node env reg (fst (find_dependencies env graph nodes))
                  (fst (snd (find_dependencies env graph nodes))) n that))
       (non_null nodes) entries"
    "m_FailedNodes this' =
       Some (filter (payload_fails env reg (m_WorkingDirectory this')) (non_null nodes))"
    by blast
  have records: "list_all2
          (\<lambda>k e. Value e = ''node'' \<and> own_uid e = fst (find_dependencies env graph nodes) k)
          (non_null nodes) entries"
    using E(2)
  proof (rule list_all2_mono)
    fix k e
    assume "\<exists>that. m_WorkingDirectory that = m_WorkingDirectory this'
          \<and> e = fst (write_node env reg (fst (find_dependencies env graph nodes))
                  (fst (snd (find_dependencies env graph nodes))) k that)"
    then obtain that where
      e: "e = fst (write_node env reg (fst (find_dependencies env graph nodes))
                  (fst (snd (find_dependencies env graph nodes))) k that)"
      by blast
    show "Value e = ''node'' \<and> own_uid e = fst (find_dependencies env graph nodes) k"
      using entry_facts(1,2) [OF e] by simp
  qed
  have "payload_fails env reg (m_WorkingDirectory this') n"
    by (rule payload_fails_Raises [OF assms(8-10)])
  moreover have "n \<in> set (non_null nodes)"
    using assms(7) by (simp add: set_non_null)
  moreover have "k \<in> set (non_null nodes) \<Longrightarrow> k \<noteq> n
      \<Longrightarrow> \<not> payload_fails env reg (m_WorkingDirectory this') k" for k
    using assms(11) by (simp add: set_non_null)
  ultimately have
    "set (filter (payload_fails env reg (m_WorkingDirectory this')) (non_null nodes)) = {n}"
    by auto
  then show ?thesis
    using S E(1,3) records by blast
qed


theorem one_failing_serializer_witness:
  "\<exists>this' fs' entries failed.
     SaveScene example_platform example_registry (SceneIO_New, empty_filesystem)
       (Some [Some 0, None, Some 1, Some 2]) (Some example_storage) ''/out/scene.mitk''
       = (True, this', fs')
     \<and> files fs' ''/out/scene.mitk'' = Some (Archive (manifest_header example_platform @ entries))
     \<and> list_all2
          (\<lambda>k e. Value e = ''node''
             \<and> own_uid e = fst (find_dependencies example_platform example_storage
                  [Some 0, None, Some 1, Some 2]) k)
          (non_null [Some 0, None, Some 1, Some 2]) entries
     \<and> m_FailedNodes this' = Some failed \<and> set failed = {1}"
proof -
  have io: "\<forall>p. \<not> mkdir_raises example_platform p" "\<forall>p. SaveFile_ok example_platform p"
    "\<forall>p. \<not> remove_raises example_platform p" "ofstream_good example_platform ''/out/scene.mitk''"
    "\<forall>p. \<not> zip_raises example_platform p" "''/out/scene.mitk'' \<noteq> []"
    by (simp_all add: example_platform_def)
  have member: "Some 1 \<in> set [Some 0, None, Some 1, Some (2::nat)]"
    by simp
  have payload: "Data (node_at example_registry 1)
      = Some \<lparr>NameOfClass = ''Surface'', data_PropertyList = None\<rparr>"
    by (simp add: example_registry_def)
  have candidates:
    "dropWhile (\<lambda>c. c = NotASerializer)
       (CreateAllInstance example_registry
          (NameOfClass \<lparr>NameOfClass = ''Surface'', data_PropertyList = None\<rparr> @ ''Serializer''))
     = BaseDataSerializer (\<lambda>d hint wd. Raises) # []"
    by (simp add: example_registry_def)
  have raises: "\<forall>hint wd. (\<lambda>d hint wd. Raises)
      \<lparr>NameOfClass = ''Surface'', data_PropertyList = None\<rparr> hint wd = (Raises :: string outcome)"
    by simp
  have others: "\<forall>k wd. Some k \<in> set [Some 0, None, Some 1, Some 2] \<and> k \<noteq> 1
      \<longrightarrow> \<not> payload_fails example_platform example_registry wd k"
    by (auto simp: payload_fails_def example_registry_def SaveBaseData_def)
  show ?thesis
    by (rule one_failing_serializer [OF io member payload candidates raises others])
qed

lemma sources_loop_cong:
  assumes "\<forall>s. Some s \<in> set A \<longleftrightarrow> Some s \<in> set B"
  shows "sources_loop A n srcs st = sources_loop B n srcs st"
proof (induction srcs arbitrary: st)
  case Nil
  then show ?case by simp
next
  case (Cons s srcs)
  obtain m S g where st: "st = (m, S, g)"
    by (cases st) auto
  show ?case
    using assms Cons.IH unfolding st by (simp add: Let_def case_prod_unfold)
qed

lemma dependencies_loop_non_null:
  assumes "\<forall>s. Some s \<in> set A \<longleftrightarrow> Some s \<in> set B"
  shows "dependencies_loop A G ps st = dependencies_loop B G (map Some (non_null ps)) st"
proof (induction ps arbitrary: st)
  case Nil
  then show ?case by simp
next
  case (Cons p ps)
  show ?case
  proof (cases p)
    case None
    then show ?thesis using Cons.IH by simp
  next
    case (Some n)
    then show ?thesis
      using Cons.IH sources_loop_cong [OF assms]
      by (simp add: dependencies_loop_Some del: dependencies_loop.simps)
  qed
qed

lemma find_dependencies_non_null:
  "find_dependencies env G ps = find_dependencies env G (map Some (non_null ps))"
  unfolding find_dependencies_def
  by (rule dependencies_loop_non_null) (auto simp: set_non_null)

lemma write_loop_non_null:
  "write_loop env reg m S ps st = write_loop env reg m S (map Some (non_null ps)) st"
proof (induction ps arbitrary: st)
  case Nil
  then show ?case by simp
next
  case (Cons p ps)
  obtain document this where st: "st = (document, this)"
    by (cases st)
  show ?case
  proof (cases p)
    case None
    then show ?thesis using Cons.IH by simp
  next
    case (Some n)
    then show ?thesis
      using Cons.IH unfolding st by (simp add: write_loop_Some del: write_loop.simps)
  qed
qed

text \<open>
  Claim C10. Null entries of the node set are skipped: a save gives the same result, the
  same members (failed nodes, failed properties, working directory) and the same file
  system, archive and manifest included, as the save of the node set without its null
  entries, and the identifiers and dependencies found are the same too. So a null entry
  adds no record, no identifier and no failure, and does not change what the save returns.
\<close>

theorem null_entries_are_skipped:
  "SaveScene env reg s (Some nodes) storage filename
     = SaveScene env reg s (Some (map Some (non_null nodes))) storage filename
   \<and> find_dependencies env graph nodes = find_dependencies env graph (map Some (non_null nodes))
   \<and> None \<notin> set (map Some (non_null nodes))"
proof -
  have "SaveScene env reg s (Some nodes) storage filename
     = SaveScene env reg s (Some (map Some (non_null nodes))) storage filename"
    by (simp add: SaveScene_def write_loop_non_null [of _ _ _ _ nodes]
        find_dependencies_non_null [of _ _ nodes]
        cong: option.case_cong if_cong prod.case_cong)
  then show ?thesis
    using find_dependencies_non_null by auto
qed

text \<open>
  Claim C1 fails on the save path. Saving to a destination that cannot be opened for
  writing returns false at line 437, after the staging directory was created and filled,
  and leaves that directory in the file system: only the path through line 449 removes it.
\<close>

theorem staging_directory_left_behind:
  "fst (SaveScene (example_platform\<lparr>ofstream_good := (\<lambda>p. False)\<rparr>) example_registry
          (SceneIO_New, empty_filesystem) (Some [Some 0, Some 1]) (Some example_storage)
          ''/missing/scene.mitk'') = False
   \<and> m_WorkingDirectory (fst (snd (SaveScene (example_platform\<lparr>ofstream_good := (\<lambda>p. False)\<rparr>)
          example_registry (SceneIO_New, empty_filesystem) (Some [Some 0, Some 1])
          (Some example_storage) ''/missing/scene.mitk''))) = ''/tmp/SceneIOTempUID_a''
   \<and> dirs (snd (snd (SaveScene (example_platform\<lparr>ofstream_good := (\<lambda>p. False)\<rparr>)
          example_registry (SceneIO_New, empty_filesystem) (Some [Some 0, Some 1])
          (Some example_storage) ''/missing/scene.mitk''))) = {''/tmp/SceneIOTempUID_a''}"
  by code_simp

text \<open>
  Claim C4 fails when both candidate paths exist already: the second
  \<^verbatim>\<open>createDirectory\<close> returns false, which lines 69-72 only log, and the function
  returns the second path, a directory that was there before, instead of the empty string.
\<close>

theorem existing_directory_reused:
  "fst (CreateEmptyTempDirectory example_platform
          \<lparr>dirs = {''/tmp/SceneIOTempUID_a'', ''/home/user/.mitk/SceneIOTempDirectoryUID_aa''},
           files = Map.empty\<rparr>)
     = ''/home/user/.mitk/SceneIOTempDirectoryUID_aa''
   \<and> dirs (snd (CreateEmptyTempDirectory example_platform
          \<lparr>dirs = {''/tmp/SceneIOTempUID_a'', ''/home/user/.mitk/SceneIOTempDirectoryUID_aa''},
           files = Map.empty\<rparr>))
     = {''/tmp/SceneIOTempUID_a'', ''/home/user/.mitk/SceneIOTempDirectoryUID_aa''}"
  by code_simp

end
